theory Spec2Isabelle
  imports Complex_Main "HOL-Library.Multiset"
begin

section \<open>Data model (game/types.ts)\<close>

text \<open>
  JavaScript numbers are modelled as real numbers: positions, hit points, timestamps and
  speeds are \<^typ>\<open>real\<close>, so rounding, overflow and the special values of IEEE doubles
  are outside the model. Counters that the code only ever increments from zero are
  \<^typ>\<open>nat\<close> or \<^typ>\<open>int\<close>. An optional field (\<open>field?: T\<close>) is an \<^typ>\<open>'a option\<close>,
  and \<open>delete obj.field\<close> sets it to \<^term>\<open>None\<close>. A \<open>Record<string, T>\<close> is a
  map \<open>string \<rightharpoonup> T\<close>. A unit object is identified by its index in the \<open>units\<close> array:
  every place where the code holds a reference to a unit, the model holds that index.
\<close>

record Position3D =
  x :: real
  y :: real
  z :: real

datatype AnimalId =
  Bee | Bear | Bunny | Chicken | Cat | Dolphin | Fox | Frog | Owl | Pig | Turtle | Yetti

datatype UnitKind = Unit | Queen | King | Base

datatype UnitState = idle | moving_to_order | pursuing_enemy

record Unit =
  unit_id :: string
  ownerId :: string
  animal :: AnimalId
  kind :: UnitKind
  position :: Position3D
  hp :: real
  maxHp :: real
  attackDamage :: real
  moveSpeed :: real
  attackCooldownMs :: real
  lastAttackAtMs :: real
  rotation :: real
  arrivedAtDestinationMs :: "real option"
  collisionAttempts :: "nat option"
  movementPausedUntilMs :: "real option"
  hopPhase :: "real option"
  isHopping :: "bool option"
  wingPhase :: "real option"
  isFlying :: "bool option"
  nearDestinationSinceMs :: "real option"
  lastCombatTargetId :: "string option"
  lastCombatEngagementMs :: "real option"
  unitState :: "UnitState option"
  firstBlockedAtMs :: "real option"
  currentAttackers :: "string list option"
  priorityAttacker :: "string option"

record Player =
  player_id :: string
  name :: string
  isAI :: bool
  animals :: "AnimalId list"
  basePositions :: "Position3D list"

record GameConfig =
  mapSize :: real
  spawnIntervalMs :: real
  regenPerSecondNearQueen :: real
  regenRadius :: real

datatype PatrolTarget = start | end_target

record PatrolRoute =
  startPosition :: Position3D
  endPosition :: Position3D
  currentTarget :: PatrolTarget

record CommandMoveUnits =
  unitIds :: "string list"
  target :: Position3D

record CommandSetPatrol =
  queenId :: string
  cmdStartPosition :: Position3D
  cmdEndPosition :: Position3D

section \<open>The spatial grid (utils/SpatialGrid.ts)\<close>

text \<open>
  The grid's \<open>Map<string, Unit[]>\<close> is keyed by the string \<open>"gx,gz"\<close> of two integers;
  the model keys it by the pair of integers itself. A cell holds references to unit
  objects, that is indices into the array the grid was built from; every query takes
  that array, so that it reads the positions the units have when the query runs.
\<close>

record SpatialGrid =
  gridSize :: int
  cellSize :: real
  grid :: "(int \<times> int) \<rightharpoonup> nat list"

definition newSpatialGrid :: "real \<Rightarrow> real \<Rightarrow> SpatialGrid" where
  "newSpatialGrid worldSize cs =
     \<lparr> gridSize = \<lceil>worldSize / cs\<rceil>, cellSize = cs, grid = Map.empty \<rparr>"

definition getGridCoords :: "SpatialGrid \<Rightarrow> Position3D \<Rightarrow> int \<times> int" where
  "getGridCoords g p =
     (\<lfloor>(x p + of_int (gridSize g) * cellSize g / 2) / cellSize g\<rfloor>,
      \<lfloor>(z p + of_int (gridSize g) * cellSize g / 2) / cellSize g\<rfloor>)"

definition clear :: "SpatialGrid \<Rightarrow> SpatialGrid" where
  "clear g = g\<lparr> grid := Map.empty \<rparr>"

definition cellUnits :: "SpatialGrid \<Rightarrow> int \<times> int \<Rightarrow> nat list" where
  "cellUnits g k = (case grid g k of None \<Rightarrow> [] | Some c \<Rightarrow> c)"

definition addUnit :: "Unit list \<Rightarrow> SpatialGrid \<Rightarrow> nat \<Rightarrow> SpatialGrid" where
  "addUnit us g i =
     (let key = getGridCoords g (position (us ! i))
      in g\<lparr> grid := (grid g)(key \<mapsto> cellUnits g key @ [i]) \<rparr>)"

definition buildFromUnits :: "Unit list \<Rightarrow> SpatialGrid \<Rightarrow> SpatialGrid" where
  "buildFromUnits us g = foldl (addUnit us) (clear g) [0..<length us]"

definition grid_distance3D :: "Position3D \<Rightarrow> Position3D \<Rightarrow> real" where
  "grid_distance3D a b =
     sqrt ((x a - x b) * (x a - x b) + (y a - y b) * (y a - y b) + (z a - z b) * (z a - z b))"

definition getNearbyUnits :: "Unit list \<Rightarrow> SpatialGrid \<Rightarrow> Position3D \<Rightarrow> real \<Rightarrow> nat list" where
  "getNearbyUnits us g p radius =
     (let coords = getGridCoords g p;
          cellRadius = \<lceil>radius / cellSize g\<rceil>
      in concat (map (\<lambda>dx. concat (map (\<lambda>dz.
           filter (\<lambda>i. grid_distance3D p (position (us ! i)) \<le> radius)
                  (cellUnits g (fst coords + dx, snd coords + dz)))
           [- cellRadius .. cellRadius])) [- cellRadius .. cellRadius]))"

definition findEnemiesInRange :: "Unit list \<Rightarrow> SpatialGrid \<Rightarrow> nat \<Rightarrow> real \<Rightarrow> nat list" where
  "findEnemiesInRange us g i rng =
     filter (\<lambda>j. \<not> (unit_id (us ! j) = unit_id (us ! i) \<or> ownerId (us ! j) = ownerId (us ! i))
                 \<and> grid_distance3D (position (us ! i)) (position (us ! j)) \<le> rng)
            (getNearbyUnits us g (position (us ! i)) rng)"

definition findNearbyQueens :: "Unit list \<Rightarrow> SpatialGrid \<Rightarrow> nat \<Rightarrow> real \<Rightarrow> nat list" where
  "findNearbyQueens us g i radius =
     filter (\<lambda>j. kind (us ! j) = Queen \<and> ownerId (us ! j) = ownerId (us ! i)
                 \<and> grid_distance3D (position (us ! i)) (position (us ! j)) \<le> radius)
            (getNearbyUnits us g (position (us ! i)) radius)"

text \<open>The brute-force scan of the specification: every unit of the array, kept when its
  exact distance from the query position is at most the radius.\<close>

definition bruteForceNearby :: "Unit list \<Rightarrow> Position3D \<Rightarrow> real \<Rightarrow> nat list" where
  "bruteForceNearby us p radius =
     filter (\<lambda>i. grid_distance3D p (position (us ! i)) \<le> radius) [0..<length us]"

subsection \<open>The grid in double precision\<close>

text \<open>
  JavaScript numbers are IEEE 754 binary64 values: every arithmetic operation returns its
  exact result rounded to the nearest of them, ties going to the even significand. The
  functions above take the cell of a position and the distances over the reals. The
  functions below write the rounding of each operation out: \<open>binary64\<close> rounds a real
  to the nearest double, in the binade found by \<open>binade\<close> (exponents from -1022, below
  which doubles are subnormal, to 1023). Overflow to \<open>Infinity\<close> and \<open>NaN\<close> are not
  modelled, so these functions stand for the code while every intermediate magnitude stays
  below 2^1024; \<open>Math.sqrt\<close> is taken to be correctly rounded; cell indices are whole
  numbers, on which the additions of the code are exact below 2^53. The grid of the store,
  \<open>new SpatialGrid(1000, 50)\<close>, has the same 20 cells per axis in both readings.
\<close>

text \<open>The number of halvings that bring a number of at least 1 below 2, and the number of
  doublings that bring a positive number below 1 up to 1, both bounded by the exponent range.\<close>

fun halvings :: "nat \<Rightarrow> real \<Rightarrow> int" where
  "halvings 0 a = 0"
| "halvings (Suc n) a = (if a < 2 then 0 else halvings n (a / 2) + 1)"

fun doublings :: "nat \<Rightarrow> real \<Rightarrow> int" where
  "doublings 0 a = 0"
| "doublings (Suc n) a = (if 1 \<le> a then 0 else doublings n (a * 2) - 1)"

definition binade :: "real \<Rightarrow> int" where
  "binade a = (if 1 \<le> a then halvings 1023 a else doublings 1022 a)"

definition ulp :: "real \<Rightarrow> real" where
  "ulp a = (let e = binade a - 52 in if 0 \<le> e then 2 ^ nat e else 1 / 2 ^ nat (- e))"

text \<open>Rounding to the nearest integer, ties to the even one.\<close>

definition roundHalfEven :: "real \<Rightarrow> int" where
  "roundHalfEven r =
     (let f = \<lfloor>r\<rfloor>; d = r - of_int f
      in if d < 1 / 2 then f else if 1 / 2 < d then f + 1 else if even f then f else f + 1)"

definition binary64 :: "real \<Rightarrow> real" where
  "binary64 v = (if v = 0 then 0 else of_int (roundHalfEven (v / ulp \<bar>v\<bar>)) * ulp \<bar>v\<bar>)"

text \<open>\<open>Math.floor((position.x + this.gridSize * this.cellSize / 2) / this.cellSize)\<close>,
  one rounding for the product, the halving, the sum and the quotient.\<close>

definition getGridCoords_binary64 :: "SpatialGrid \<Rightarrow> Position3D \<Rightarrow> int \<times> int" where
  "getGridCoords_binary64 g p =
     (let half = binary64 (binary64 (of_int (gridSize g) * cellSize g) / 2)
      in (\<lfloor>binary64 (binary64 (x p + half) / cellSize g)\<rfloor>,
          \<lfloor>binary64 (binary64 (z p + half) / cellSize g)\<rfloor>))"

definition addUnit_binary64 :: "Unit list \<Rightarrow> SpatialGrid \<Rightarrow> nat \<Rightarrow> SpatialGrid" where
  "addUnit_binary64 us g i =
     (let key = getGridCoords_binary64 g (position (us ! i))
      in g\<lparr> grid := (grid g)(key \<mapsto> cellUnits g key @ [i]) \<rparr>)"

definition buildFromUnits_binary64 :: "Unit list \<Rightarrow> SpatialGrid \<Rightarrow> SpatialGrid" where
  "buildFromUnits_binary64 us g = foldl (addUnit_binary64 us) (clear g) [0..<length us]"

text \<open>\<open>Math.sqrt(dx * dx + dy * dy + dz * dz)\<close>, summed from the left.\<close>

definition grid_distance3D_binary64 :: "Position3D \<Rightarrow> Position3D \<Rightarrow> real" where
  "grid_distance3D_binary64 a b =
     (let dx = binary64 (x a - x b); dy = binary64 (y a - y b); dz = binary64 (z a - z b)
      in binary64 (sqrt (binary64 (binary64 (binary64 (dx * dx) + binary64 (dy * dy)) + binary64 (dz * dz)))))"

definition getNearbyUnits_binary64 :: "Unit list \<Rightarrow> SpatialGrid \<Rightarrow> Position3D \<Rightarrow> real \<Rightarrow> nat list" where
  "getNearbyUnits_binary64 us g p radius =
     (let coords = getGridCoords_binary64 g p;
          cellRadius = \<lceil>binary64 (radius / cellSize g)\<rceil>
      in concat (map (\<lambda>dx. concat (map (\<lambda>dz.
           filter (\<lambda>i. grid_distance3D_binary64 p (position (us ! i)) \<le> radius)
                  (cellUnits g (fst coords + dx, snd coords + dz)))
           [- cellRadius .. cellRadius])) [- cellRadius .. cellRadius]))"

definition bruteForceNearby_binary64 :: "Unit list \<Rightarrow> Position3D \<Rightarrow> real \<Rightarrow> nat list" where
  "bruteForceNearby_binary64 us p radius =
     filter (\<lambda>i. grid_distance3D_binary64 p (position (us ! i)) \<le> radius) [0..<length us]"

section \<open>The store (game/state.ts)\<close>

datatype BridgeAnimationState = up | lowering | down | raising

datatype BridgeFrame = Fully_Up | Almost_Up | Almost_Down | Fully_Down

record BridgeAnimation =
  currentState :: BridgeAnimationState
  currentFrame :: BridgeFrame
  animationStartMs :: real
  frameStartMs :: real
  triggeredByPlayer :: bool

record BridgeState =
  rightBridge :: BridgeAnimation
  leftBridge :: BridgeAnimation

datatype GameScreen = menu | lobby | playing | postgame

record Optimizations =
  aiThrottling :: bool
  combatBatching :: bool
  movementCaching :: bool
  regenThrottling :: bool
  winCheckThrottling :: bool
  deadUnitBatching :: bool
  spawnOptimization :: bool

record LightingSettings =
  sunBrightness :: real
  moonBrightness :: real
  ambientLight :: real
  dayNightSpeed :: real

record Store =
  currentScreen :: GameScreen
  config :: GameConfig
  players :: "Player list"
  units :: "Unit list"
  lastSpawnAtMsByQueenId :: "string \<rightharpoonup> real"
  lastRegenAtMsByUnitId :: "string \<rightharpoonup> real"
  selectedAnimalPool :: "AnimalId list"
  localPlayerId :: "string option"
  matchStarted :: bool
  gameOver :: bool
  winner :: "string option"
  selectedUnitIds :: "string list"
  unitOrders :: "string \<rightharpoonup> Position3D"
  queenPatrols :: "string \<rightharpoonup> PatrolRoute"
  bridgeState :: BridgeState
  unitCountCache :: "string \<rightharpoonup> (AnimalId \<rightharpoonup> nat)"
  spatialGrid :: "SpatialGrid option"
  lastRegenCheckMs :: real
  tickCounter :: int
  debugTickCount :: "int option"
  aiThinkingOffset :: "string \<rightharpoonup> int"
  movementDirectionCache :: "string \<rightharpoonup> Position3D"
  targetCache :: "string \<rightharpoonup> string"
  lastWinCheckMs :: real
  deadUnitsToRemove :: "string list"
  ultraPerformanceMode :: bool
  optimizations :: Optimizations
  isPaused :: bool
  lightingSettings :: LightingSettings

text \<open>The values the store is created with.\<close>

definition defaultConfig :: GameConfig where
  "defaultConfig = \<lparr> mapSize = 50, spawnIntervalMs = 10000, regenPerSecondNearQueen = 5, regenRadius = 8 \<rparr>"

definition initialBridge :: BridgeAnimation where
  "initialBridge = \<lparr> currentState = up, currentFrame = Fully_Up, animationStartMs = 0,
                      frameStartMs = 0, triggeredByPlayer = False \<rparr>"

definition initialStore :: Store where
  "initialStore =
     \<lparr> currentScreen = menu, config = defaultConfig, players = [], units = [],
       lastSpawnAtMsByQueenId = Map.empty, lastRegenAtMsByUnitId = Map.empty,
       selectedAnimalPool = [Bee, Bear, Fox], localPlayerId = None,
       matchStarted = False, gameOver = False, winner = None, selectedUnitIds = [],
       unitOrders = Map.empty, queenPatrols = Map.empty,
       bridgeState = \<lparr> rightBridge = initialBridge, leftBridge = initialBridge \<rparr>,
       unitCountCache = Map.empty, spatialGrid = None, lastRegenCheckMs = 0, tickCounter = 0,
       debugTickCount = None, aiThinkingOffset = Map.empty, movementDirectionCache = Map.empty,
       targetCache = Map.empty, lastWinCheckMs = 0, deadUnitsToRemove = [],
       ultraPerformanceMode = True,
       optimizations = \<lparr> aiThrottling = True, combatBatching = True, movementCaching = True,
                         regenThrottling = True, winCheckThrottling = True,
                         deadUnitBatching = True, spawnOptimization = True \<rparr>,
       isPaused = False,
       lightingSettings = \<lparr> sunBrightness = 5.0, moonBrightness = 9.6, ambientLight = 1.6,
                            dayNightSpeed = 120 \<rparr> \<rparr>"

subsection \<open>checkWinConditions\<close>

text \<open>The inner loop over \<open>enemyIds\<close>: it leaves \<open>allEnemiesDefeated\<close> true exactly when
  no enemy id owns a Base, a King or a Queen.\<close>

definition enemyHolds :: "Unit list \<Rightarrow> string \<Rightarrow> bool" where
  "enemyHolds us enemyId =
     (length (filter (\<lambda>u. ownerId u = enemyId \<and> kind u = Base) us) > 0
      \<or> length (filter (\<lambda>u. ownerId u = enemyId \<and> kind u = King) us) > 0
      \<or> length (filter (\<lambda>u. ownerId u = enemyId \<and> kind u = Queen) us) > 0)"

fun allEnemiesDefeated :: "Unit list \<Rightarrow> string list \<Rightarrow> bool" where
  "allEnemiesDefeated us [] = True"
| "allEnemiesDefeated us (enemyId # rest) =
     (if enemyHolds us enemyId then False else allEnemiesDefeated us rest)"

fun checkWinLoop :: "string list \<Rightarrow> string list \<Rightarrow> Store \<Rightarrow> Store" where
  "checkWinLoop playerIds [] d = d"
| "checkWinLoop playerIds (playerId # rest) d =
     (let enemyIds = filter (\<lambda>i. i \<noteq> playerId) playerIds
      in if allEnemiesDefeated (units d) enemyIds
         then d\<lparr> gameOver := True, winner := Some playerId \<rparr>
         else checkWinLoop playerIds rest d)"

definition checkWinConditions :: "Store \<Rightarrow> Store" where
  "checkWinConditions d =
     (let playerIds = map player_id (players d)
      in checkWinLoop playerIds playerIds d)"

text \<open>The throttled call at the end of \<open>tick\<close>.\<close>

definition winCheckStep :: "real \<Rightarrow> Store \<Rightarrow> Store" where
  "winCheckStep nowMs d =
     (if \<not> gameOver d
         \<and> (\<not> winCheckThrottling (optimizations d) \<or> nowMs - lastWinCheckMs d \<ge> 5000)
      then (let d1 = checkWinConditions d
            in if winCheckThrottling (optimizations d1) then d1\<lparr> lastWinCheckMs := nowMs \<rparr> else d1)
      else d)"

subsection \<open>Ambient inputs\<close>

text \<open>
  The tick reads four things that are not part of the store: \<open>Math.random()\<close>,
  \<open>Date.now()\<close>, \<open>nanoid()\<close> and the module-level \<open>distanceCache\<close>. The model threads
  them as an explicit environment: each call of the first three takes the next value of
  a sequence, and the cache is a list of entries in insertion order. The cache key is the
  string of the six coordinates rounded to one decimal; the model keeps the six integers
  \<open>Math.round(c * 10)\<close> instead.
\<close>

type_synonym CacheKey = "int \<times> int \<times> int \<times> int \<times> int \<times> int"

record Env =
  randoms :: "nat \<Rightarrow> real"
  randomsUsed :: nat
  clock :: "nat \<Rightarrow> real"
  clockUsed :: nat
  freshIds :: "nat \<Rightarrow> string"
  freshIdsUsed :: nat
  distanceCache :: "(CacheKey \<times> real) list"

definition Math_random :: "Env \<Rightarrow> real \<times> Env" where
  "Math_random e = (randoms e (randomsUsed e), e\<lparr> randomsUsed := Suc (randomsUsed e) \<rparr>)"

definition Date_now :: "Env \<Rightarrow> real \<times> Env" where
  "Date_now e = (clock e (clockUsed e), e\<lparr> clockUsed := Suc (clockUsed e) \<rparr>)"

definition nanoid :: "Env \<Rightarrow> string \<times> Env" where
  "nanoid e = (freshIds e (freshIdsUsed e), e\<lparr> freshIdsUsed := Suc (freshIdsUsed e) \<rparr>)"

subsection \<open>3D utility functions\<close>

definition Math_round :: "real \<Rightarrow> int" where
  "Math_round v = \<lfloor>v + 1 / 2\<rfloor>"

definition getCacheKey :: "Position3D \<Rightarrow> Position3D \<Rightarrow> CacheKey" where
  "getCacheKey a b =
     (Math_round (x a * 10), Math_round (y a * 10), Math_round (z a * 10),
      Math_round (x b * 10), Math_round (y b * 10), Math_round (z b * 10))"

definition CACHE_SIZE_LIMIT :: nat where
  "CACHE_SIZE_LIMIT = 1000"

definition distance3D :: "Position3D \<Rightarrow> Position3D \<Rightarrow> Env \<Rightarrow> real \<times> Env" where
  "distance3D a b e =
     (let cacheKey = getCacheKey a b
      in case map_of (distanceCache e) cacheKey of
           Some d \<Rightarrow> (d, e)
         | None \<Rightarrow>
             (let dx = x a - x b; dy = y a - y b; dz = z a - z b;
                  distance = sqrt (dx * dx + dy * dy + dz * dz);
                  c = (if length (distanceCache e) \<ge> CACHE_SIZE_LIMIT then [] else distanceCache e)
              in (distance, e\<lparr> distanceCache := c @ [(cacheKey, distance)] \<rparr>)))"

definition distanceSquared3D :: "Position3D \<Rightarrow> Position3D \<Rightarrow> real" where
  "distanceSquared3D a b =
     (let dx = x a - x b; dy = y a - y b; dz = z a - z b
      in dx * dx + dy * dy + dz * dz)"

definition subtract3D :: "Position3D \<Rightarrow> Position3D \<Rightarrow> Position3D" where
  "subtract3D a b = \<lparr> x = x a - x b, y = y a - y b, z = z a - z b \<rparr>"

definition normalize3D :: "Position3D \<Rightarrow> Position3D" where
  "normalize3D vec =
     (let len = sqrt (x vec * x vec + y vec * y vec + z vec * z vec)
      in if len = 0 then \<lparr> x = 0, y = 0, z = 0 \<rparr>
         else \<lparr> x = x vec / len, y = y vec / len, z = z vec / len \<rparr>)"

text \<open>\<open>Math.atan2(a, b)\<close> on reals, and the remainder \<open>a % b\<close> of JavaScript, which
  truncates the quotient towards zero.\<close>

definition Math_atan2 :: "real \<Rightarrow> real \<Rightarrow> real" where
  "Math_atan2 a b =
     (if b > 0 then arctan (a / b)
      else if b < 0 \<and> a \<ge> 0 then arctan (a / b) + pi
      else if b < 0 then arctan (a / b) - pi
      else if a > 0 then pi / 2
      else if a < 0 then - (pi / 2)
      else 0)"

definition js_rem :: "real \<Rightarrow> real \<Rightarrow> real" where
  "js_rem a b =
     (let q = a / b
      in a - b * of_int (if q \<ge> 0 then \<lfloor>q\<rfloor> else \<lceil>q\<rceil>))"

subsection \<open>Unit constructors\<close>

record Stats =
  baseHp :: real
  dmg :: real
  speed :: real

fun ANIMALS :: "AnimalId \<Rightarrow> Stats" where
  "ANIMALS Bee = \<lparr> baseHp = 60, dmg = 10, speed = 20.4 \<rparr>"
| "ANIMALS Bear = \<lparr> baseHp = 220, dmg = 40, speed = 8.16 \<rparr>"
| "ANIMALS Bunny = \<lparr> baseHp = 75, dmg = 9, speed = 18.36 \<rparr>"
| "ANIMALS Chicken = \<lparr> baseHp = 70, dmg = 8, speed = 19.04 \<rparr>"
| "ANIMALS Cat = \<lparr> baseHp = 90, dmg = 12, speed = 16.32 \<rparr>"
| "ANIMALS Dolphin = \<lparr> baseHp = 110, dmg = 18, speed = 13.6 \<rparr>"
| "ANIMALS Fox = \<lparr> baseHp = 140, dmg = 20, speed = 14.28 \<rparr>"
| "ANIMALS Frog = \<lparr> baseHp = 80, dmg = 10, speed = 17.68 \<rparr>"
| "ANIMALS Owl = \<lparr> baseHp = 100, dmg = 16, speed = 14.96 \<rparr>"
| "ANIMALS Pig = \<lparr> baseHp = 160, dmg = 18, speed = 12.24 \<rparr>"
| "ANIMALS Turtle = \<lparr> baseHp = 240, dmg = 24, speed = 6.8 \<rparr>"
| "ANIMALS Yetti = \<lparr> baseHp = 260, dmg = 30, speed = 7.48 \<rparr>"

definition baseStats :: "AnimalId \<Rightarrow> Stats" where
  "baseStats a = ANIMALS a"

definition createBase :: "string \<Rightarrow> AnimalId \<Rightarrow> Position3D \<Rightarrow> real \<Rightarrow> Env \<Rightarrow> Unit \<times> Env" where
  "createBase owner a pos rot e =
     (let stats = baseStats a; (newId, e1) = nanoid e
      in (\<lparr> unit_id = newId, ownerId = owner, animal = a, kind = Base, position = pos,
            hp = baseHp stats * 8, maxHp = baseHp stats * 8, attackDamage = 0,
            moveSpeed = 0, attackCooldownMs = 1500, lastAttackAtMs = 0,
            rotation = rot,
            arrivedAtDestinationMs = None, collisionAttempts = None,
            movementPausedUntilMs = None, hopPhase = None, isHopping = None,
            wingPhase = None, isFlying = None, nearDestinationSinceMs = None,
            lastCombatTargetId = None, lastCombatEngagementMs = None, unitState = None,
            firstBlockedAtMs = None, currentAttackers = None, priorityAttacker = None \<rparr>, e1))"

definition createQueen :: "string \<Rightarrow> AnimalId \<Rightarrow> Position3D \<Rightarrow> real \<Rightarrow> Env \<Rightarrow> Unit \<times> Env" where
  "createQueen owner a pos rot e =
     (let stats = baseStats a; (newId, e1) = nanoid e
      in (\<lparr> unit_id = newId, ownerId = owner, animal = a, kind = Queen, position = pos,
            hp = baseHp stats * 2, maxHp = baseHp stats * 2, attackDamage = dmg stats,
            moveSpeed = speed stats * 1.53, attackCooldownMs = 1500, lastAttackAtMs = 0,
            rotation = rot,
            arrivedAtDestinationMs = None, collisionAttempts = None,
            movementPausedUntilMs = None, hopPhase = None, isHopping = None,
            wingPhase = None, isFlying = None, nearDestinationSinceMs = None,
            lastCombatTargetId = None, lastCombatEngagementMs = None, unitState = None,
            firstBlockedAtMs = None, currentAttackers = None, priorityAttacker = None \<rparr>, e1))"

definition createKing :: "string \<Rightarrow> AnimalId \<Rightarrow> Position3D \<Rightarrow> real \<Rightarrow> Env \<Rightarrow> Unit \<times> Env" where
  "createKing owner a pos rot e =
     (let stats = baseStats a; (newId, e1) = nanoid e
      in (\<lparr> unit_id = newId, ownerId = owner, animal = a, kind = King, position = pos,
            hp = baseHp stats * 3, maxHp = baseHp stats * 3, attackDamage = dmg stats * 3,
            moveSpeed = speed stats * 0.85, attackCooldownMs = 1500, lastAttackAtMs = 0,
            rotation = rot,
            arrivedAtDestinationMs = None, collisionAttempts = None,
            movementPausedUntilMs = None, hopPhase = None, isHopping = None,
            wingPhase = None, isFlying = None, nearDestinationSinceMs = None,
            lastCombatTargetId = None, lastCombatEngagementMs = None, unitState = None,
            firstBlockedAtMs = None, currentAttackers = None, priorityAttacker = None \<rparr>, e1))"

definition createUnit :: "string \<Rightarrow> AnimalId \<Rightarrow> Position3D \<Rightarrow> real \<Rightarrow> Env \<Rightarrow> Unit \<times> Env" where
  "createUnit owner a pos rot e =
     (let stats = baseStats a; (newId, e1) = nanoid e
      in (\<lparr> unit_id = newId, ownerId = owner, animal = a, kind = Unit, position = pos,
            hp = baseHp stats, maxHp = baseHp stats, attackDamage = dmg stats,
            moveSpeed = speed stats, attackCooldownMs = 1500, lastAttackAtMs = 0,
            rotation = rot,
            arrivedAtDestinationMs = None, collisionAttempts = None,
            movementPausedUntilMs = None, hopPhase = None, isHopping = None,
            wingPhase = None, isFlying = None, nearDestinationSinceMs = None,
            lastCombatTargetId = None, lastCombatEngagementMs = None, unitState = None,
            firstBlockedAtMs = None, currentAttackers = None, priorityAttacker = None \<rparr>, e1))"

subsection \<open>checkCollision\<close>

text \<open>The units the resolver looks at: all others that are not a Base, and, when the
  array holds more than 50 units, only those within three collision radii.\<close>

definition nearbyUnitsFor :: "Position3D \<Rightarrow> Unit \<Rightarrow> Unit list \<Rightarrow> real \<Rightarrow> Unit list" where
  "nearbyUnitsFor newPosition currentUnit allUnits collisionRadius =
     (if length allUnits > 50
      then (let checkRadius = collisionRadius * 3
            in filter (\<lambda>other.
                 if unit_id other = unit_id currentUnit \<or> kind other = Base then False
                 else (let dx = x (position other) - x newPosition;
                           dz = z (position other) - z newPosition
                       in dx * dx + dz * dz \<le> checkRadius * checkRadius)) allUnits)
      else filter (\<lambda>other. unit_id other \<noteq> unit_id currentUnit \<and> kind other \<noteq> Base) allUnits)"

text \<open>One iteration of the loop over the nearby units. The loop state is the adjusted
  position, the flag \<open>hasCollision\<close> and the environment (a coincident pair draws a
  random angle).\<close>

definition pushAway :: "Unit \<Rightarrow> string list \<Rightarrow> string option \<Rightarrow>
    Position3D \<times> bool \<times> Env \<Rightarrow> Unit \<Rightarrow> Position3D \<times> bool \<times> Env" where
  "pushAway currentUnit selectedIds localId acc other =
     (case acc of (adjustedPosition, hasCollision, e) \<Rightarrow>
      let isCurrentUnitSelected = (unit_id currentUnit \<in> set selectedIds);
          isCurrentUnitPlayer = (Some (ownerId currentUnit) = localId);
          isOtherUnitPlayer = (Some (ownerId other) = localId);
          isOtherUnitSelected = (unit_id other \<in> set selectedIds);
          shouldReduceCollision = (isCurrentUnitSelected \<and> isCurrentUnitPlayer
                                   \<and> isOtherUnitPlayer \<and> \<not> isOtherUnitSelected);
          dx = x adjustedPosition - x (position other);
          dz = z adjustedPosition - z (position other);
          distanceSquared = dx * dx + dz * dz;
          isEnemy = (ownerId currentUnit \<noteq> ownerId other);
          isFriendly = (ownerId currentUnit = ownerId other);
          minimumDistance = 2.5;
          minimumDistanceSquared = minimumDistance * minimumDistance
      in if isEnemy \<and> distanceSquared \<le> 4 then acc
         else if distanceSquared < minimumDistanceSquared
         then (let distance = sqrt distanceSquared;
                   (pushDirectionX, pushDirectionZ, e1) =
                     (if distance < 0.001
                      then (let (r, e') = Math_random e; randomAngle = r * pi * 2
                            in (cos randomAngle, sin randomAngle, e'))
                      else (let invDistance = 1.0 / distance
                            in (dx * invDistance, dz * invDistance, e)))
               in if isFriendly
                  then (let pushStrength = (if shouldReduceCollision then 0.2 else 0.5);
                            pushDistance = (minimumDistance - distance) * pushStrength
                        in (adjustedPosition\<lparr> x := x adjustedPosition + pushDirectionX * pushDistance,
                                               z := z adjustedPosition + pushDirectionZ * pushDistance \<rparr>,
                            hasCollision, e1))
                  else (let pushDistance = minimumDistance - distance + 0.2
                        in (adjustedPosition\<lparr> x := x adjustedPosition + pushDirectionX * pushDistance,
                                               z := z adjustedPosition + pushDirectionZ * pushDistance \<rparr>,
                            True, e1)))
         else acc)"

text \<open>\<open>checkCollision\<close> returns the adjusted position; it also writes the collision
  counter and the movement pause of \<open>currentUnit\<close>, so the model returns the updated unit
  and the environment too.\<close>

definition checkCollision :: "Position3D \<Rightarrow> Unit \<Rightarrow> Unit list \<Rightarrow> real \<Rightarrow> string list \<Rightarrow>
    string option \<Rightarrow> (string \<rightharpoonup> Position3D) \<Rightarrow> Env \<Rightarrow> Position3D \<times> Unit \<times> Env" where
  "checkCollision newPosition currentUnit allUnits collisionRadius selectedIds localId orders e =
     (let isCurrentUnitPlayer = (Some (ownerId currentUnit) = localId);
          nearbyUnits = nearbyUnitsFor newPosition currentUnit allUnits collisionRadius;
          (adjustedPosition, hasCollision, e1) =
             foldl (pushAway currentUnit selectedIds localId) (newPosition, False, e) nearbyUnits
      in if hasCollision
         then (let attempts = (case collisionAttempts currentUnit of None \<Rightarrow> 0 | Some n \<Rightarrow> n) + 1;
                   hasActiveOrder = (orders (unit_id currentUnit) \<noteq> None);
                   isPlayerWithOrder = (isCurrentUnitPlayer \<and> hasActiveOrder);
                   pauseThreshold = (if isPlayerWithOrder then 8 else 5);
                   pauseDuration = (if isPlayerWithOrder then 100 else 200)
               in if attempts \<ge> pauseThreshold
                  then (let (t, e2) = Date_now e1
                        in (adjustedPosition,
                            currentUnit\<lparr> collisionAttempts := Some 0,
                                         movementPausedUntilMs := Some (t + pauseDuration) \<rparr>, e2))
                  else (adjustedPosition, currentUnit\<lparr> collisionAttempts := Some attempts \<rparr>, e1))
         else (adjustedPosition, currentUnit\<lparr> collisionAttempts := Some 0 \<rparr>, e1))"

subsection \<open>tick: preparation, regeneration, spawning\<close>

text \<open>
  The loops of \<open>tick\<close> run over arrays of unit references collected in one pass at the
  start of the tick (\<open>queens\<close>, \<open>unitsNeedingHealing\<close>, \<open>movableUnits\<close>); the model
  collects the indices. The categories \<open>playerUnits\<close> and \<open>aiUnits\<close>, the set
  \<open>unitsUnderAttack\<close> and the console output are written and never read, and are left
  out.
\<close>

record TickRun =
  draft :: Store
  env :: Env
  combatPairs :: "(nat \<times> nat \<times> real) list"

definition updUnit :: "nat \<Rightarrow> (Unit \<Rightarrow> Unit) \<Rightarrow> Store \<Rightarrow> Store" where
  "updUnit i f d = d\<lparr> units := (units d)[i := f (units d ! i)] \<rparr>"

text \<open>\<open>units.find(u => u.id === uid)\<close>: the first unit with that id.\<close>

definition findUnit :: "Unit list \<Rightarrow> string \<Rightarrow> nat option" where
  "findUnit us uid = List.find (\<lambda>i. unit_id (us ! i) = uid) [0..<length us]"

text \<open>\<open>candidates.reduce(...)\<close> keeping the nearer unit, guarded by
  \<open>candidates.length > 0\<close>.\<close>

definition closest :: "Unit list \<Rightarrow> nat \<Rightarrow> nat list \<Rightarrow> nat option" where
  "closest us i cands =
     (case cands of
        [] \<Rightarrow> None
      | c # cs \<Rightarrow> Some (foldl (\<lambda>best enemy.
          (let distToCurrent = distanceSquared3D (position (us ! i)) (position (us ! best));
               distToEnemy = distanceSquared3D (position (us ! i)) (position (us ! enemy))
           in if distToEnemy < distToCurrent then enemy else best)) c cs))"

definition queensOf :: "Unit list \<Rightarrow> nat list" where
  "queensOf us = filter (\<lambda>i. kind (us ! i) = Queen) [0..<length us]"

definition unitsNeedingHealingOf :: "Unit list \<Rightarrow> nat list" where
  "unitsNeedingHealingOf us = filter (\<lambda>i. hp (us ! i) < maxHp (us ! i)) [0..<length us]"

definition movableUnitsOf :: "Unit list \<Rightarrow> nat list" where
  "movableUnitsOf us = filter (\<lambda>i. kind (us ! i) \<noteq> Base) [0..<length us]"

definition countUnit :: "(string \<rightharpoonup> (AnimalId \<rightharpoonup> nat)) \<Rightarrow> Unit \<Rightarrow> (string \<rightharpoonup> (AnimalId \<rightharpoonup> nat))" where
  "countUnit c u =
     (if kind u = Unit
      then (let inner = (case c (ownerId u) of None \<Rightarrow> Map.empty | Some m \<Rightarrow> m)
            in c(ownerId u \<mapsto> inner(animal u \<mapsto> (case inner (animal u) of None \<Rightarrow> 0 | Some n \<Rightarrow> n) + 1)))
      else c)"

definition cachedCount :: "Store \<Rightarrow> string \<Rightarrow> AnimalId \<Rightarrow> nat" where
  "cachedCount d owner a =
     (case unitCountCache d owner of
        None \<Rightarrow> 0
      | Some m \<Rightarrow> (case m a of None \<Rightarrow> 0 | Some n \<Rightarrow> n))"

definition tickPrepare :: "Store \<Rightarrow> Store" where
  "tickPrepare d =
     (let g = (case spatialGrid d of None \<Rightarrow> newSpatialGrid 1000 50 | Some g0 \<Rightarrow> g0)
      in d\<lparr> debugTickCount := Some ((case debugTickCount d of None \<Rightarrow> 0 | Some n \<Rightarrow> n) + 1),
            tickCounter := tickCounter d + 1,
            spatialGrid := Some (buildFromUnits (units d) g),
            unitCountCache := foldl countUnit Map.empty (units d) \<rparr>)"

definition REGEN_INTERVAL_MS :: real where
  "REGEN_INTERVAL_MS = 3000"

definition REGEN_AMOUNT :: real where
  "REGEN_AMOUNT = 1"

definition REGEN_CHECK_FREQUENCY :: int where
  "REGEN_CHECK_FREQUENCY = 3"

text \<open>The body of the healing loop. \<open>draft.spatialGrid!\<close> is the grid that \<open>tick\<close> has
  just built; without a grid the model heals nothing.\<close>

definition regenUnit :: "real \<Rightarrow> Store \<Rightarrow> nat \<Rightarrow> Store" where
  "regenUnit nowMs d i =
     (let unit = units d ! i
      in if hp unit \<le> 0 then d
         else (let lastRegenTime = (case lastRegenAtMsByUnitId d (unit_id unit) of None \<Rightarrow> 0 | Some t \<Rightarrow> t)
               in if nowMs - lastRegenTime < REGEN_INTERVAL_MS then d
                  else (case spatialGrid d of
                          None \<Rightarrow> d
                        | Some g \<Rightarrow>
                            (let nearbyQueens = findNearbyQueens (units d) g i (regenRadius (config d))
                             in if length nearbyQueens > 0
                                then d\<lparr> units := (units d)[i := unit\<lparr> hp := min (maxHp unit) (hp unit + REGEN_AMOUNT) \<rparr>],
                                        lastRegenAtMsByUnitId := (lastRegenAtMsByUnitId d)(unit_id unit \<mapsto> nowMs) \<rparr>
                                else d))))"

definition regenPass :: "real \<Rightarrow> nat list \<Rightarrow> Store \<Rightarrow> Store" where
  "regenPass nowMs unitsNeedingHealing d =
     (if \<not> regenThrottling (optimizations d) \<or> tickCounter d mod REGEN_CHECK_FREQUENCY = 0
      then (let healingUnitsToProcess = take 30 unitsNeedingHealing
            in foldl (regenUnit nowMs) d healingUnitsToProcess)
      else d)"

definition presetAngles :: "real list" where
  "presetAngles = [0, pi / 4, pi / 2, 3 * pi / 4, pi, 5 * pi / 4, 3 * pi / 2, 7 * pi / 4]"

text \<open>The body of the loop over the queens.\<close>

definition spawnFromQueen :: "real \<Rightarrow> Store \<times> Env \<Rightarrow> nat \<Rightarrow> Store \<times> Env" where
  "spawnFromQueen nowMs de qi =
     (case de of (d, e) \<Rightarrow>
      let q = units d ! qi;
          last = (case lastSpawnAtMsByQueenId d (unit_id q) of None \<Rightarrow> 0 | Some t \<Rightarrow> t)
      in if nowMs - last \<ge> spawnIntervalMs (config d)
         then (let existingCount = cachedCount d (ownerId q) (animal q);
                   (d1, e1) =
                     (if existingCount < 20
                      then (let spawnIndex = existingCount mod 8;
                                angle = presetAngles ! spawnIndex;
                                distance = 2.5;
                                tentativeSpawnPos =
                                  \<lparr> x = x (position q) + cos angle * distance, y = 0,
                                    z = z (position q) + sin angle * distance \<rparr>;
                                isPlayerUnit = (Some (ownerId q) = localPlayerId d);
                                initialRotation = (if isPlayerUnit then pi else 0);
                                (tempUnit, e0) = createUnit (ownerId q) (animal q) tentativeSpawnPos initialRotation e;
                                (finalSpawnPos, tempUnit1, e2) =
                                  checkCollision tentativeSpawnPos tempUnit (units d) 2.5
                                    (selectedUnitIds d) (localPlayerId d) (unitOrders d) e0
                            in (d\<lparr> units := units d @ [tempUnit1\<lparr> position := finalSpawnPos \<rparr>] \<rparr>, e2))
                      else (d, e))
               in (d1\<lparr> lastSpawnAtMsByQueenId := (lastSpawnAtMsByQueenId d1)(unit_id q \<mapsto> nowMs) \<rparr>, e1))
         else (d, e))"

definition spawnPass :: "real \<Rightarrow> nat list \<Rightarrow> Store \<times> Env \<Rightarrow> Store \<times> Env" where
  "spawnPass nowMs queens de = foldl (spawnFromQueen nowMs) de queens"

subsection \<open>tick: the behavior pass\<close>

text \<open>\<open>unit.position = checkCollision(newPosition, unit, draft.units, 2.5, ...)\<close> with
  \<open>newPosition\<close> the unit's position moved by \<open>amount\<close> along the x and z components of
  \<open>direction\<close>.\<close>

definition moveAlong :: "real \<Rightarrow> nat \<Rightarrow> Position3D \<Rightarrow> TickRun \<Rightarrow> TickRun" where
  "moveAlong amount i direction r =
     (let d = draft r; unit = units d ! i;
          newPosition = \<lparr> x = x (position unit) + x direction * amount, y = y (position unit),
                          z = z (position unit) + z direction * amount \<rparr>;
          (p, unit1, e1) = checkCollision newPosition unit (units d) 2.5
                             (selectedUnitIds d) (localPlayerId d) (unitOrders d) (env r)
      in r\<lparr> draft := d\<lparr> units := (units d)[i := unit1\<lparr> position := p \<rparr>] \<rparr>, env := e1 \<rparr>)"

definition hopStep :: "real \<Rightarrow> Unit \<Rightarrow> Unit" where
  "hopStep dtSec u =
     (if animal u = Frog \<or> animal u = Bunny
      then (let hopSpeed = moveSpeed u / 5
            in u\<lparr> isHopping := Some True,
                  hopPhase := Some (js_rem ((case hopPhase u of None \<Rightarrow> 0 | Some h \<Rightarrow> h) + hopSpeed * dtSec) 1) \<rparr>)
      else u\<lparr> isHopping := Some False \<rparr>)"

definition isInRecentCombat :: "real \<Rightarrow> Unit \<Rightarrow> bool" where
  "isInRecentCombat nowMs u =
     (case lastCombatEngagementMs u of None \<Rightarrow> False | Some t \<Rightarrow> t \<noteq> 0 \<and> nowMs - t < 2000)"

definition isMovementPaused :: "real \<Rightarrow> Unit \<Rightarrow> bool" where
  "isMovementPaused nowMs u =
     ((case movementPausedUntilMs u of None \<Rightarrow> False | Some t \<Rightarrow> t \<noteq> 0 \<and> nowMs < t)
      \<and> \<not> isInRecentCombat nowMs u)"

definition clearOrder :: "nat \<Rightarrow> Store \<Rightarrow> Store" where
  "clearOrder i d =
     updUnit i (\<lambda>u. u\<lparr> arrivedAtDestinationMs := None \<rparr>)
       (d\<lparr> unitOrders := (unitOrders d)(unit_id (units d ! i) := None) \<rparr>)"

text \<open>The blocking detection of an ordered player unit.\<close>

definition blockedUpdate :: "real \<Rightarrow> nat \<Rightarrow> Store \<Rightarrow> Store" where
  "blockedUpdate nowMs i d =
     (let d1 = (case firstBlockedAtMs (units d ! i) of
                  None \<Rightarrow> updUnit i (\<lambda>u. u\<lparr> firstBlockedAtMs := Some nowMs \<rparr>) d
                | Some t \<Rightarrow> if t = 0 then updUnit i (\<lambda>u. u\<lparr> firstBlockedAtMs := Some nowMs \<rparr>) d else d);
          blockedDuration = nowMs - (case firstBlockedAtMs (units d1 ! i) of None \<Rightarrow> 0 | Some t \<Rightarrow> t)
      in if blockedDuration \<ge> 2000
         then updUnit i (\<lambda>u. u\<lparr> unitState := Some idle, collisionAttempts := Some 0,
                                 movementPausedUntilMs := None, firstBlockedAtMs := None \<rparr>)
                (clearOrder i d1)
         else d1)"

text \<open>Priority 1 of a player unit: execute the movement order.\<close>

definition playerOrderBranch :: "real \<Rightarrow> real \<Rightarrow> nat \<Rightarrow> Position3D \<Rightarrow> TickRun \<Rightarrow> TickRun \<times> nat option" where
  "playerOrderBranch dtSec nowMs i order r0 =
     (let r1 = r0\<lparr> draft := updUnit i (\<lambda>u. u\<lparr> unitState := Some moving_to_order \<rparr>) (draft r0) \<rparr>;
          unit = units (draft r1) ! i;
          (distanceToOrder, e1) = distance3D (position unit) order (env r1);
          paused = isMovementPaused nowMs unit;
          isCurrentlyBlocked = (paused \<or> (case collisionAttempts unit of None \<Rightarrow> False | Some c \<Rightarrow> c \<ge> 3));
          r2 = r1\<lparr> env := e1,
                   draft := (if isCurrentlyBlocked then blockedUpdate nowMs i (draft r1)
                             else updUnit i (\<lambda>u. u\<lparr> firstBlockedAtMs := None \<rparr>) (draft r1)) \<rparr>;
          nearbyEnemy = (case spatialGrid (draft r2) of
                           None \<Rightarrow> None
                         | Some g \<Rightarrow> closest (units (draft r2)) i (findEnemiesInRange (units (draft r2)) g i 8));
          r3 = (if distanceToOrder > 0.5 \<and> \<not> paused
                then (let u3 = units (draft r2) ! i;
                          direction = normalize3D (subtract3D order (position u3));
                          moveDistance = moveSpeed u3 * dtSec;
                          faceIt = (case nearbyEnemy of
                                      None \<Rightarrow> True
                                    | Some n \<Rightarrow> distanceSquared3D (position u3) (position (units (draft r2) ! n)) > 900);
                          ra = r2\<lparr> draft := updUnit i (\<lambda>u. hopStep dtSec
                                   (if faceIt then u\<lparr> rotation := Math_atan2 (x direction) (z direction) \<rparr> else u))
                                   (draft r2) \<rparr>
                      in moveAlong moveDistance i direction ra)
                else r2);
          tgt = (case nearbyEnemy of
                   None \<Rightarrow> None
                 | Some n \<Rightarrow> if distanceSquared3D (position (units (draft r3) ! i)) (position (units (draft r3) ! n)) \<le> 64
                             then Some n else None);
          r4 = (if distanceToOrder \<le> 0.5
                then r3\<lparr> draft := updUnit i (\<lambda>u. u\<lparr> unitState := Some idle \<rparr>) (clearOrder i (draft r3)) \<rparr>
                else r3)
      in (r4, tgt))"

text \<open>Re-engaging the last combat target: it must be recent (under 3 s), alive, an enemy
  and within 10 units.\<close>

definition recentTarget :: "real \<Rightarrow> Unit list \<Rightarrow> nat \<Rightarrow> nat option" where
  "recentTarget nowMs us i =
     (case (lastCombatTargetId (us ! i), lastCombatEngagementMs (us ! i)) of
        (Some lt, Some lce) \<Rightarrow>
          if lt \<noteq> [] \<and> lce \<noteq> 0 \<and> nowMs - lce < 3000
          then (case findUnit us lt of
                  None \<Rightarrow> None
                | Some j \<Rightarrow> if ownerId (us ! j) \<noteq> ownerId (us ! i) \<and> hp (us ! j) > 0
                               \<and> distanceSquared3D (position (us ! i)) (position (us ! j)) \<le> 100
                            then Some j else None)
          else None
      | _ \<Rightarrow> None)"

text \<open>The focus target of an AI unit: its last combat target while alive, an enemy and
  within 50 units.\<close>

definition focusTarget :: "Unit list \<Rightarrow> nat \<Rightarrow> nat option" where
  "focusTarget us i =
     (case lastCombatTargetId (us ! i) of
        None \<Rightarrow> None
      | Some lt \<Rightarrow>
          if lt = [] then None
          else (case findUnit us lt of
                  None \<Rightarrow> None
                | Some j \<Rightarrow> if ownerId (us ! j) \<noteq> ownerId (us ! i) \<and> hp (us ! j) > 0
                               \<and> sqrt (distanceSquared3D (position (us ! i)) (position (us ! j))) \<le> 50
                            then Some j else None))"

text \<open>Priorities 2 and 3 of a player unit without an order. In the last branch
  \<open>unit.priorityAttacker\<close> is known to be empty, so the source's check of a defeated
  priority attacker there never runs.\<close>

definition playerIdleBranch :: "real \<Rightarrow> nat \<Rightarrow> TickRun \<Rightarrow> TickRun \<times> nat option" where
  "playerIdleBranch nowMs i r =
     (let d = draft r; us = units d; unit = us ! i;
          attackerIds = (case currentAttackers unit of None \<Rightarrow> [] | Some l \<Rightarrow> l);
          hasPriority = (case priorityAttacker unit of None \<Rightarrow> False | Some pa \<Rightarrow> pa \<noteq> [])
      in if length attackerIds > 0
         then (let kept = (case priorityAttacker unit of
                             None \<Rightarrow> None
                           | Some pa \<Rightarrow> if pa \<noteq> [] \<and> pa \<in> set attackerIds then findUnit us pa else None)
               in case kept of
                    Some k \<Rightarrow> (r\<lparr> draft := updUnit i (\<lambda>u. u\<lparr> unitState := Some pursuing_enemy \<rparr>) d \<rparr>, Some k)
                  | None \<Rightarrow>
                      (let attackers = filter (\<lambda>j. hp (us ! j) > 0) (List.map_filter (findUnit us) attackerIds)
                       in case closest us i attackers of
                            None \<Rightarrow> (r, None)
                          | Some c \<Rightarrow>
                              (r\<lparr> draft := updUnit i (\<lambda>u. u\<lparr> priorityAttacker := Some (unit_id (us ! c)),
                                                              unitState := Some pursuing_enemy \<rparr>) d \<rparr>, Some c)))
         else if hasPriority
         then (r\<lparr> draft := updUnit i (\<lambda>u. u\<lparr> priorityAttacker := None, unitState := Some idle \<rparr>) d \<rparr>, None)
         else if unitState unit = Some idle \<or> unitState unit = Some pursuing_enemy
         then (let recent = (if lastCombatTargetId unit \<noteq> priorityAttacker unit
                             then recentTarget nowMs us i else None);
                   enemyTarget = (case recent of
                                    Some j \<Rightarrow> Some j
                                  | None \<Rightarrow> (case spatialGrid d of
                                               None \<Rightarrow> None
                                             | Some g \<Rightarrow> closest us i (findEnemiesInRange us g i 10)))
               in case enemyTarget of
                    Some j \<Rightarrow> (r\<lparr> draft := updUnit i (\<lambda>u. u\<lparr> unitState := Some pursuing_enemy \<rparr>) d \<rparr>, Some j)
                  | None \<Rightarrow> (r\<lparr> draft := updUnit i (\<lambda>u. u\<lparr> unitState := Some idle \<rparr>) d \<rparr>, None))
         else (r, None))"

text \<open>A unit that is not a player unit and has an order.\<close>

definition aiOrderBranch :: "real \<Rightarrow> real \<Rightarrow> nat \<Rightarrow> Position3D \<Rightarrow> TickRun \<Rightarrow> TickRun" where
  "aiOrderBranch dtSec nowMs i order r0 =
     (let unit = units (draft r0) ! i;
          (distanceToOrder, e1) = distance3D (position unit) order (env r0);
          paused = isMovementPaused nowMs unit;
          r1 = r0\<lparr> env := e1 \<rparr>;
          r2 = (if distanceToOrder > 0.5 \<and> \<not> paused
                then (let direction = normalize3D (subtract3D order (position unit));
                          moveDistance = moveSpeed unit * dtSec;
                          ra = r1\<lparr> draft := updUnit i (\<lambda>u. u\<lparr> rotation := Math_atan2 (x direction) (z direction) \<rparr>)
                                              (draft r1) \<rparr>
                      in moveAlong moveDistance i direction ra)
                else r1)
      in if distanceToOrder \<le> 0.5 then r2\<lparr> draft := clearOrder i (draft r2) \<rparr> else r2)"

text \<open>Queen patrol behavior.\<close>

definition patrolBranch :: "real \<Rightarrow> nat \<Rightarrow> PatrolRoute \<Rightarrow> TickRun \<Rightarrow> TickRun" where
  "patrolBranch dtSec i patrol r0 =
     (let unit = units (draft r0) ! i;
          targetPos = (if currentTarget patrol = end_target then endPosition patrol else startPosition patrol);
          (dist3, e1) = distance3D (position unit) targetPos (env r0);
          r1 = r0\<lparr> env := e1 \<rparr>
      in if dist3 > 1
         then (let direction = normalize3D (subtract3D targetPos (position unit));
                   moveDistance = moveSpeed unit * dtSec;
                   ra = r1\<lparr> draft := updUnit i (\<lambda>u. u\<lparr> rotation := Math_atan2 (x direction) (z direction) \<rparr>)
                                       (draft r1) \<rparr>
               in moveAlong moveDistance i direction ra)
         else r1\<lparr> draft := (draft r1)\<lparr> queenPatrols :=
                  (\<lambda>k. if k = unit_id unit
                        then map_option (\<lambda>pr. pr\<lparr> currentTarget :=
                               (if currentTarget patrol = end_target then start else end_target) \<rparr>)
                               (queenPatrols (draft r1) k)
                        else queenPatrols (draft r1) k) \<rparr> \<rparr>)"

text \<open>\<open>findClosestEnemy(unit, all)\<close> of state.ts: a linear scan for the nearest unit of
  another owner; \<open>bestDistSq\<close> starts at infinity, so the first enemy always replaces
  the empty result.\<close>

definition findClosestEnemy :: "Unit list \<Rightarrow> nat \<Rightarrow> nat option" where
  "findClosestEnemy us i =
     foldl (\<lambda>best other.
              if ownerId (us ! other) = ownerId (us ! i) then best
              else (let dSq = distanceSquared3D (position (us ! i)) (position (us ! other))
                    in case best of
                         None \<Rightarrow> Some other
                       | Some b \<Rightarrow> if dSq < distanceSquared3D (position (us ! i)) (position (us ! b))
                                   then Some other else best))
           None [0..<length us]"

text \<open>An AI unit without order or patrol on a tick where it thinks.\<close>

definition aiThinkBranch :: "nat \<Rightarrow> TickRun \<Rightarrow> TickRun \<times> nat option" where
  "aiThinkBranch i r =
     (let d = draft r; us = units d; unit = us ! i;
          currentTgt = (case focusTarget us i of Some j \<Rightarrow> Some j | None \<Rightarrow> findClosestEnemy us i)
      in case currentTgt of
           None \<Rightarrow> (r, None)
         | Some j \<Rightarrow>
             (r\<lparr> draft := d\<lparr> targetCache :=
                   ((targetCache d)(unit_id unit @ ''-target'' \<mapsto> unit_id (us ! j)))
                     (unit_id unit @ ''-target-persistence'' \<mapsto> unit_id (us ! j)) \<rparr> \<rparr>, Some j))"

text \<open>An AI unit without order or patrol on a tick where it does not think.\<close>

definition aiCachedBranch :: "real \<Rightarrow> nat \<Rightarrow> TickRun \<Rightarrow> TickRun \<times> nat option" where
  "aiCachedBranch nowMs i r =
     (let d = draft r; us = units d; unit = us ! i
      in case recentTarget nowMs us i of
           Some j \<Rightarrow> (r, Some j)
         | None \<Rightarrow>
             (case focusTarget us i of
                Some j \<Rightarrow> (r, Some j)
              | None \<Rightarrow>
                  (let cacheKey = unit_id unit @ ''-target''
                   in case targetCache d cacheKey of
                        None \<Rightarrow> (r, None)
                      | Some cachedTargetId \<Rightarrow>
                          if cachedTargetId = [] then (r, None)
                          else (case List.find (\<lambda>j. unit_id (us ! j) = cachedTargetId \<and> hp (us ! j) > 0)
                                       [0..<length us] of
                                  Some j \<Rightarrow> (r, Some j)
                                | None \<Rightarrow> (r\<lparr> draft := d\<lparr> targetCache := (targetCache d)(cacheKey := None) \<rparr> \<rparr>,
                                           None)))))"

text \<open>Firing: the pair is queued, the attacker's cooldown and combat memory are stamped
  and the attacker's id is appended to the target's \<open>currentAttackers\<close>.\<close>

definition fireAttack :: "real \<Rightarrow> nat \<Rightarrow> nat \<Rightarrow> TickRun \<Rightarrow> TickRun" where
  "fireAttack nowMs i t r =
     (let d = draft r; unit = units d ! i;
          d1 = updUnit i (\<lambda>u. u\<lparr> lastAttackAtMs := nowMs,
                                  lastCombatTargetId := Some (unit_id (units d ! t)),
                                  lastCombatEngagementMs := Some nowMs \<rparr>) d;
          d2 = updUnit t (\<lambda>u. u\<lparr> currentAttackers :=
                  Some ((case currentAttackers u of None \<Rightarrow> [] | Some l \<Rightarrow> l) @ [unit_id unit]) \<rparr>) d1
      in r\<lparr> combatPairs := combatPairs r @ [(i, t, attackDamage unit)], draft := d2 \<rparr>)"

text \<open>The combat execution section, for a unit with a target.\<close>

definition combatExecution :: "real \<Rightarrow> real \<Rightarrow> nat \<Rightarrow> nat option \<Rightarrow> TickRun \<Rightarrow> TickRun" where
  "combatExecution dtSec nowMs i tgt r =
     (case tgt of
        None \<Rightarrow> r
      | Some t \<Rightarrow>
          (let d = draft r; unit = units d ! i;
               distSquared = distanceSquared3D (position unit) (position (units d ! t));
               direction = normalize3D (subtract3D (position (units d ! t)) (position unit));
               r1 = r\<lparr> draft := updUnit i (\<lambda>u. u\<lparr> rotation := Math_atan2 (x direction) (z direction) \<rparr>) d \<rparr>;
               r2 = (if distSquared \<le> 16 \<and> nowMs - lastAttackAtMs unit \<ge> attackCooldownMs unit
                     then fireAttack nowMs i t r1 else r1)
           in if distSquared > 16
              then (let u2 = units (draft r2) ! i;
                        direction2 = normalize3D (subtract3D (position (units (draft r2) ! t)) (position u2));
                        moveDistance = moveSpeed u2 * dtSec;
                        r3 = moveAlong moveDistance i direction2 r2
                    in r3\<lparr> draft := updUnit i (hopStep dtSec) (draft r3) \<rparr>)
              else r2))"

text \<open>The body of the loop over the movable units, up to the combat execution section:
  the thinking offset is initialised and the branch for the unit is run, which yields the
  unit's target if it has one.\<close>

definition decideUnit :: "real \<Rightarrow> real \<Rightarrow> TickRun \<Rightarrow> nat \<Rightarrow> TickRun \<times> nat option" where
  "decideUnit dtSec nowMs r i =
     (let d = draft r; unit = units d ! i;
          ownerPlayer = List.find (\<lambda>p. player_id p = ownerId unit) (players d);
          isPlayerUnit = (case ownerPlayer of None \<Rightarrow> False | Some p \<Rightarrow> \<not> isAI p);
          offset = (case aiThinkingOffset d (unit_id unit) of None \<Rightarrow> 0 | Some k \<Rightarrow> k);
          shouldThinkThisTick = (isPlayerUnit \<or> \<not> aiThrottling (optimizations d)
                                 \<or> (tickCounter d + offset) mod 2 = 0);
          r1 = (if offset = 0
                then (let (rv, e1) = Math_random (env r)
                      in r\<lparr> draft := d\<lparr> aiThinkingOffset := (aiThinkingOffset d)(unit_id unit \<mapsto> \<lfloor>rv * 2\<rfloor>) \<rparr>,
                            env := e1 \<rparr>)
                else r);
          order = unitOrders (draft r1) (unit_id unit);
          patrol = queenPatrols (draft r1) (unit_id unit)
      in if isPlayerUnit
         then (let ra = (if unitState unit = None
                         then r1\<lparr> draft := updUnit i (\<lambda>u. u\<lparr> unitState := Some idle \<rparr>) (draft r1) \<rparr>
                         else r1)
               in case order of
                    Some ord \<Rightarrow> playerOrderBranch dtSec nowMs i ord ra
                  | None \<Rightarrow> playerIdleBranch nowMs i ra)
         else (case order of
                 Some ord \<Rightarrow> (aiOrderBranch dtSec nowMs i ord r1, None)
               | None \<Rightarrow>
                   (case patrol of
                      Some pat \<Rightarrow> if kind unit = Queen then (patrolBranch dtSec i pat r1, None)
                                  else (r1, None)
                    | None \<Rightarrow> if shouldThinkThisTick then aiThinkBranch i r1
                              else aiCachedBranch nowMs i r1)))"

text \<open>The whole body: the decision, then the combat execution section.\<close>

definition behaveUnit :: "real \<Rightarrow> real \<Rightarrow> TickRun \<Rightarrow> nat \<Rightarrow> TickRun" where
  "behaveUnit dtSec nowMs r i =
     (let (r2, tgt) = decideUnit dtSec nowMs r i
      in combatExecution dtSec nowMs i tgt r2)"

definition behaviorPass :: "real \<Rightarrow> real \<Rightarrow> nat list \<Rightarrow> TickRun \<Rightarrow> TickRun" where
  "behaviorPass dtSec nowMs movableUnits r = foldl (behaveUnit dtSec nowMs) r movableUnits"

subsection \<open>tick: combat application, removal of the dead, cleanup\<close>

text \<open>The body of the loop over the queued combat pairs.\<close>

definition applyCombatPair :: "TickRun \<Rightarrow> nat \<times> nat \<times> real \<Rightarrow> TickRun" where
  "applyCombatPair r pr =
     (case pr of (a, t, damage) \<Rightarrow>
      let d1 = updUnit t (\<lambda>u. u\<lparr> hp := hp u - damage \<rparr>) (draft r);
          tu = units d1 ! t;
          d2 = (if hp tu \<le> 0 then d1\<lparr> deadUnitsToRemove := deadUnitsToRemove d1 @ [unit_id tu] \<rparr> else d1);
          knockbackDistance = 0.8;
          direction = normalize3D (subtract3D (position tu) (position (units d2 ! a)))
      in if hp tu > 0 \<and> (x direction \<noteq> 0 \<or> z direction \<noteq> 0)
         then moveAlong knockbackDistance t direction (r\<lparr> draft := d2 \<rparr>)
         else r\<lparr> draft := d2 \<rparr>)"

definition applyCombat :: "TickRun \<Rightarrow> TickRun" where
  "applyCombat r = foldl applyCombatPair r (combatPairs r)"

definition clearDeadRefs :: "string \<Rightarrow> Unit \<Rightarrow> Unit" where
  "clearDeadRefs deadUnitId u =
     (let u1 = (if priorityAttacker u = Some deadUnitId then u\<lparr> priorityAttacker := None \<rparr> else u);
          u2 = (if lastCombatTargetId u1 = Some deadUnitId
                then u1\<lparr> lastCombatTargetId := None, lastCombatEngagementMs := None \<rparr> else u1)
      in case currentAttackers u2 of
           None \<Rightarrow> u2
         | Some l \<Rightarrow> u2\<lparr> currentAttackers := Some (filter (\<lambda>a. a \<noteq> deadUnitId) l) \<rparr>)"

definition forgetDead :: "Store \<Rightarrow> string \<Rightarrow> Store" where
  "forgetDead d deadUnitId =
     d\<lparr> units := map (clearDeadRefs deadUnitId) (units d),
        targetCache := (\<lambda>k. if targetCache d k = Some deadUnitId then None else targetCache d k) \<rparr>"

definition removeDeadUnits :: "Store \<Rightarrow> Store" where
  "removeDeadUnits d =
     (if length (deadUnitsToRemove d) > 0
      then (let d1 = foldl forgetDead d (deadUnitsToRemove d);
                d2 = d1\<lparr> units := filter (\<lambda>u. hp u > 0 \<and> unit_id u \<notin> set (deadUnitsToRemove d1)) (units d1) \<rparr>;
                d3 = d2\<lparr> deadUnitsToRemove := [] \<rparr>
            in case spatialGrid d3 of
                 None \<Rightarrow> d3
               | Some g \<Rightarrow> d3\<lparr> spatialGrid := Some (buildFromUnits (units d3) g) \<rparr>)
      else d)"

definition pruneAttackers :: "Unit list \<Rightarrow> Unit \<Rightarrow> Unit" where
  "pruneAttackers us u =
     (case currentAttackers u of
        None \<Rightarrow> u
      | Some l \<Rightarrow>
          if length l > 0
          then (let kept = filter (\<lambda>attackerId.
                         case findUnit us attackerId of
                           None \<Rightarrow> False
                         | Some a \<Rightarrow> if hp (us ! a) \<le> 0 then False
                                     else sqrt (distanceSquared3D (position u) (position (us ! a))) \<le> 50) l
                in if length kept = 0 then u\<lparr> currentAttackers := None \<rparr>
                   else u\<lparr> currentAttackers := Some kept \<rparr>)
          else u)"

definition cleanupAttackers :: "Store \<Rightarrow> Store" where
  "cleanupAttackers d =
     d\<lparr> units := foldl (\<lambda>us i. us[i := pruneAttackers us (us ! i)]) (units d) [0..<length (units d)] \<rparr>"

subsection \<open>Bridge animations\<close>

definition FRAME_DURATION :: real where
  "FRAME_DURATION = 1000"

definition updateSingleBridgeAnimation :: "BridgeAnimation \<Rightarrow> bool \<Rightarrow> real \<Rightarrow> BridgeAnimation" where
  "updateSingleBridgeAnimation bridge isPlayerInZone nowMs =
     (case currentState bridge of
        up \<Rightarrow>
          if isPlayerInZone \<and> \<not> triggeredByPlayer bridge
          then bridge\<lparr> currentState := lowering, animationStartMs := nowMs, frameStartMs := nowMs,
                       triggeredByPlayer := True \<rparr>
          else bridge
      | lowering \<Rightarrow>
          if nowMs - frameStartMs bridge \<ge> FRAME_DURATION
          then (case currentFrame bridge of
                  Fully_Up \<Rightarrow> bridge\<lparr> currentFrame := Almost_Up, frameStartMs := nowMs \<rparr>
                | Almost_Up \<Rightarrow> bridge\<lparr> currentFrame := Almost_Down, frameStartMs := nowMs \<rparr>
                | Almost_Down \<Rightarrow> bridge\<lparr> currentFrame := Fully_Down, frameStartMs := nowMs,
                                         currentState := down \<rparr>
                | Fully_Down \<Rightarrow> bridge)
          else bridge
      | down \<Rightarrow>
          if \<not> isPlayerInZone
          then bridge\<lparr> currentState := raising, animationStartMs := nowMs, frameStartMs := nowMs,
                       triggeredByPlayer := False \<rparr>
          else bridge
      | raising \<Rightarrow>
          if nowMs - frameStartMs bridge \<ge> FRAME_DURATION
          then (case currentFrame bridge of
                  Fully_Down \<Rightarrow> bridge\<lparr> currentFrame := Almost_Down, frameStartMs := nowMs \<rparr>
                | Almost_Down \<Rightarrow> bridge\<lparr> currentFrame := Almost_Up, frameStartMs := nowMs \<rparr>
                | Almost_Up \<Rightarrow> bridge\<lparr> currentFrame := Fully_Up, frameStartMs := nowMs,
                                       currentState := up \<rparr>
                | Fully_Up \<Rightarrow> bridge)
          else bridge)"

definition inTriggerZone :: "Unit list \<Rightarrow> real \<Rightarrow> real \<Rightarrow> bool" where
  "inTriggerZone playerUnits zoneX zoneZ =
     list_ex (\<lambda>unit. sqrt ((x (position unit) - zoneX) ^ 2 + (z (position unit) - zoneZ) ^ 2) \<le> 10)
             playerUnits"

definition updateBridgeAnimations :: "Store \<Rightarrow> real \<Rightarrow> Store" where
  "updateBridgeAnimations d nowMs =
     (let playerUnits = filter (\<lambda>unit. Some (ownerId unit) = localPlayerId d
                                      \<and> (kind unit = King \<or> kind unit = Queen)) (units d);
          isPlayerInRightZone = inTriggerZone playerUnits 15 0;
          isPlayerInLeftZone = inTriggerZone playerUnits (- 15) 0
      in d\<lparr> bridgeState := \<lparr>
             rightBridge = updateSingleBridgeAnimation (rightBridge (bridgeState d)) isPlayerInRightZone nowMs,
             leftBridge = updateSingleBridgeAnimation (leftBridge (bridgeState d)) isPlayerInLeftZone nowMs \<rparr> \<rparr>)"

subsection \<open>tick\<close>

text \<open>The tick up to and including the application of the queued combat pairs.\<close>

definition tickThroughCombat :: "real \<Rightarrow> real \<Rightarrow> Store \<times> Env \<Rightarrow> TickRun" where
  "tickThroughCombat dtSec nowMs pe =
     (case pe of (prev, e) \<Rightarrow>
      let queens = queensOf (units prev);
          unitsNeedingHealing = unitsNeedingHealingOf (units prev);
          movableUnits = movableUnitsOf (units prev);
          d1 = tickPrepare prev;
          d2 = regenPass nowMs unitsNeedingHealing d1;
          (d3, e3) = spawnPass nowMs queens (d2, e);
          r4 = behaviorPass dtSec nowMs movableUnits \<lparr> draft = d3, env = e3, combatPairs = [] \<rparr>
      in applyCombat r4)"

text \<open>The rest of the tick: removal of the dead, attacker cleanup, bridges, win check.\<close>

definition tickFinish :: "real \<Rightarrow> TickRun \<Rightarrow> Store \<times> Env" where
  "tickFinish nowMs r =
     (let d5 = removeDeadUnits (draft r);
          d6 = cleanupAttackers d5;
          d7 = updateBridgeAnimations d6 nowMs
      in (winCheckStep nowMs d7, env r))"

definition tick :: "real \<Rightarrow> real \<Rightarrow> Store \<times> Env \<Rightarrow> Store \<times> Env" where
  "tick dtSec nowMs pe =
     (if \<not> matchStarted (fst pe) \<or> isPaused (fst pe) then pe
      else tickFinish nowMs (tickThroughCombat dtSec nowMs pe))"

subsection \<open>Commands\<close>

text \<open>The body of the loop of \<open>moveCommand\<close> over \<open>cmd.unitIds\<close>.\<close>

definition orderUnit :: "Position3D \<Rightarrow> Store \<Rightarrow> string \<Rightarrow> Store" where
  "orderUnit tgt d uid =
     (case findUnit (units d) uid of
        None \<Rightarrow> d
      | Some i \<Rightarrow>
          if Some (ownerId (units d ! i)) \<noteq> localPlayerId d then d
          else updUnit i (\<lambda>u. u\<lparr> unitState := Some moving_to_order, arrivedAtDestinationMs := None,
                                  lastCombatTargetId := None, lastCombatEngagementMs := None,
                                  priorityAttacker := None, collisionAttempts := Some 0,
                                  movementPausedUntilMs := None, firstBlockedAtMs := None \<rparr>)
                 (d\<lparr> unitOrders := (unitOrders d)(uid \<mapsto> tgt) \<rparr>))"

definition moveCommand :: "CommandMoveUnits \<Rightarrow> Store \<Rightarrow> Store" where
  "moveCommand cmd d = foldl (orderUnit (target cmd)) d (unitIds cmd)"

definition setPatrol :: "CommandSetPatrol \<Rightarrow> Store \<Rightarrow> Store" where
  "setPatrol cmd d =
     (case findUnit (units d) (queenId cmd) of
        None \<Rightarrow> d
      | Some i \<Rightarrow>
          if Some (ownerId (units d ! i)) \<noteq> localPlayerId d \<or> kind (units d ! i) \<noteq> Queen then d
          else d\<lparr> queenPatrols := (queenPatrols d)(queenId cmd \<mapsto>
                     \<lparr> startPosition = cmdStartPosition cmd, endPosition = cmdEndPosition cmd,
                       currentTarget = end_target \<rparr>),
                  unitOrders := (unitOrders d)(queenId cmd := None) \<rparr>)"

section \<open>Example states\<close>

text \<open>Small concrete states on which the theorems below are instantiated. Units are made
  by the constructors of the store, with \<open>nanoid()\<close> returning the given id.\<close>

definition envWithId :: "string \<Rightarrow> Env" where
  "envWithId s = \<lparr> randoms = (\<lambda>n. 0), randomsUsed = 0, clock = (\<lambda>n. 0), clockUsed = 0,
                   freshIds = (\<lambda>n. s), freshIdsUsed = 0, distanceCache = [] \<rparr>"

definition origin :: Position3D where
  "origin = \<lparr> x = 0, y = 0, z = 0 \<rparr>"

definition twoPlayers :: "Player list" where
  "twoPlayers =
     [\<lparr> player_id = ''A'', name = ''You'', isAI = False, animals = [Bee, Bear, Fox], basePositions = [] \<rparr>,
      \<lparr> player_id = ''B'', name = ''AI'', isAI = True, animals = [Owl, Pig, Turtle], basePositions = [] \<rparr>]"

definition winExample :: Store where
  "winExample = initialStore\<lparr> players := twoPlayers, localPlayerId := Some ''A'', matchStarted := True,
       units := [fst (createBase ''A'' Bee origin 0 (envWithId ''a-base'')),
                 fst (createUnit ''B'' Owl origin 0 (envWithId ''b-unit''))] \<rparr>"


definition patrolRoute :: PatrolRoute where
  "patrolRoute = \<lparr> startPosition = origin, endPosition = \<lparr> x = 10, y = 0, z = 0 \<rparr>,
                   currentTarget = end_target \<rparr>"

definition patrolExample :: Store where
  "patrolExample = initialStore\<lparr> players := twoPlayers, localPlayerId := Some ''A'', matchStarted := True,
       units := [fst (createQueen ''A'' Bee origin 0 (envWithId ''a-queen''))],
       queenPatrols := [''a-queen'' \<mapsto> patrolRoute] \<rparr>"

definition moveQueen :: CommandMoveUnits where
  "moveQueen = \<lparr> unitIds = [''a-queen''], target = \<lparr> x = 5, y = 0, z = 5 \<rparr> \<rparr>"

text \<open>The same Queen with a move order as well, and a patrol command with a new route.\<close>

definition orderedQueenExample :: Store where
  "orderedQueenExample = patrolExample\<lparr> unitOrders := [''a-queen'' \<mapsto> \<lparr> x = 1, y = 0, z = 1 \<rparr>] \<rparr>"

definition repatrolQueen :: CommandSetPatrol where
  "repatrolQueen = \<lparr> queenId = ''a-queen'', cmdStartPosition = \<lparr> x = 2, y = 0, z = 2 \<rparr>,
                     cmdEndPosition = \<lparr> x = 2, y = 0, z = 12 \<rparr> \<rparr>"

section \<open>Auxiliary notions for the proofs\<close>

definition planarDistance :: "Position3D \<Rightarrow> Position3D \<Rightarrow> real" where
  "planarDistance p q = sqrt ((x p - x q) * (x p - x q) + (z p - z q) * (z p - z q))"

definition pushStrengthFor :: "Unit \<Rightarrow> Unit \<Rightarrow> string list \<Rightarrow> string option \<Rightarrow> real" where
  "pushStrengthFor cur other sel loc =
     (if unit_id cur \<in> set sel \<and> Some (ownerId cur) = loc \<and> Some (ownerId other) = loc
         \<and> unit_id other \<notin> set sel then 0.2 else 0.5)"

definition friendA1 :: Unit where
  "friendA1 = fst (createUnit ''A'' Bee \<lparr> x = 5, y = 0, z = 0 \<rparr> 0 (envWithId ''a1''))"

definition friendA2 :: Unit where
  "friendA2 = fst (createUnit ''A'' Bee origin 0 (envWithId ''a2''))"

definition oneAway :: Position3D where
  "oneAway = \<lparr> x = 1, y = 0, z = 0 \<rparr>"

definition core :: "Unit \<Rightarrow> string \<times> string \<times> AnimalId \<times> UnitKind \<times> real \<times> real \<times> real" where
  "core u = (unit_id u, ownerId u, animal u, kind u, hp u, maxHp u, attackDamage u)"

definition damageOk :: "TickRun \<Rightarrow> bool" where
  "damageOk r \<longleftrightarrow> (\<forall>pr\<in>set (combatPairs r). 0 \<le> snd (snd pr))"

definition unitOk :: "Unit \<Rightarrow> bool" where
  "unitOk u \<longleftrightarrow> 0 < hp u \<and> hp u \<le> maxHp u \<and> 0 \<le> attackDamage u"

definition healthy :: "Unit list \<Rightarrow> bool" where
  "healthy us \<longleftrightarrow> (\<forall>u\<in>set us. unitOk u)"

definition deathsRecorded :: "Store \<Rightarrow> bool" where
  "deathsRecorded d \<longleftrightarrow>
     (\<forall>u\<in>set (units d). hp u \<le> maxHp u \<and> 0 \<le> attackDamage u
        \<and> (hp u \<le> 0 \<longrightarrow> unit_id u \<in> set (deadUnitsToRemove d)))"

text \<open>The state when the behavior pass starts.\<close>

definition beforeBehavior :: "real \<Rightarrow> Store \<times> Env \<Rightarrow> TickRun" where
  "beforeBehavior nowMs pe =
     (let de = spawnPass nowMs (queensOf (units (fst pe)))
                 (regenPass nowMs (unitsNeedingHealingOf (units (fst pe))) (tickPrepare (fst pe)), snd pe)
      in \<lparr> draft = fst de, env = snd de, combatPairs = [] \<rparr>)"

definition regenEligible :: "real \<Rightarrow> Store \<Rightarrow> nat \<Rightarrow> bool" where
  "regenEligible nowMs d i \<longleftrightarrow>
     0 < hp (units d ! i)
     \<and> nowMs - (case lastRegenAtMsByUnitId d (unit_id (units d ! i)) of None \<Rightarrow> 0 | Some t \<Rightarrow> t) \<ge> 3000
     \<and> (case spatialGrid d of None \<Rightarrow> False
         | Some g \<Rightarrow> findNearbyQueens (units d) g i (regenRadius (config d)) \<noteq> [])"

definition healed :: "Unit \<Rightarrow> Unit" where
  "healed u = u\<lparr> hp := min (maxHp u) (hp u + 1) \<rparr>"

definition wounded :: "string \<Rightarrow> Position3D \<Rightarrow> Unit" where
  "wounded uid pos = (fst (createUnit ''A'' Bee pos 0 (envWithId uid)))\<lparr> hp := 10 \<rparr>"

definition farAway :: Position3D where
  "farAway = \<lparr> x = 500, y = 0, z = 0 \<rparr>"

definition healExample :: Store where
  "healExample = initialStore\<lparr> players := twoPlayers, localPlayerId := Some ''A'', matchStarted := True,
       tickCounter := 2,
       units := [wounded ''a-unit'' origin, fst (createQueen ''A'' Bee origin 0 (envWithId ''a-queen''))] \<rparr>"

definition crowdExample :: Store where
  "crowdExample = initialStore\<lparr> players := twoPlayers, localPlayerId := Some ''A'', matchStarted := True,
       tickCounter := 2,
       units := map (\<lambda>k. wounded (replicate (Suc k) CHR ''f'') farAway) [0..<30]
                @ [wounded ''a-unit'' origin, fst (createQueen ''A'' Bee origin 0 (envWithId ''a-queen''))] \<rparr>"

definition duelExample :: Store where
  "duelExample = initialStore\<lparr> players := twoPlayers, localPlayerId := Some ''A'', matchStarted := True,
       units := [fst (createUnit ''A'' Bee origin 0 (envWithId ''a-unit'')),
                 fst (createUnit ''B'' Owl \<lparr> x = 3, y = 0, z = 0 \<rparr> 0 (envWithId ''b-unit''))] \<rparr>"

definition duelRun :: TickRun where
  "duelRun = \<lparr> draft = duelExample, env = envWithId ''n'', combatPairs = [] \<rparr>"

definition fighterA :: Unit where
  "fighterA = (fst (createUnit ''A'' Bee origin 0 (envWithId ''a-unit'')))\<lparr> hp := 59.5 \<rparr>"

definition fighterB :: Unit where
  "fighterB = (fst (createUnit ''B'' Owl \<lparr> x = 3, y = 0, z = 0 \<rparr> 0 (envWithId ''b-unit'')))\<lparr> hp := 5 \<rparr>"

definition fighterQ :: Unit where
  "fighterQ = fst (createQueen ''A'' Bee \<lparr> x = - 8, y = 0, z = 0 \<rparr> 0 (envWithId ''a-queen''))"

definition fightExample :: Store where
  "fightExample = initialStore\<lparr> players := twoPlayers, localPlayerId := Some ''A'', matchStarted := True,
       tickCounter := 2, units := [fighterA, fighterB, fighterQ] \<rparr>"

definition fightRun :: TickRun where
  "fightRun = \<lparr> draft = (tickPrepare fightExample)\<lparr> units := [fighterA\<lparr> hp := 60 \<rparr>, fighterB, fighterQ],
                    lastRegenAtMsByUnitId := [''a-unit'' \<mapsto> 5000] \<rparr>,
                env = envWithId ''n'', combatPairs = [] \<rparr>"

definition inRing :: "SpatialGrid \<Rightarrow> Position3D \<Rightarrow> real \<Rightarrow> Position3D \<Rightarrow> bool" where
  "inRing g p radius q \<longleftrightarrow>
     \<bar>fst (getGridCoords_binary64 g q) - fst (getGridCoords_binary64 g p)\<bar> \<le> \<lceil>binary64 (radius / cellSize g)\<rceil>
     \<and> \<bar>snd (getGridCoords_binary64 g q) - snd (getGridCoords_binary64 g p)\<bar> \<le> \<lceil>binary64 (radius / cellSize g)\<rceil>"

definition finiteCell :: "SpatialGrid \<Rightarrow> Position3D \<Rightarrow> bool" where
  "finiteCell g p \<longleftrightarrow>
     (let m = of_int (gridSize g) * cellSize g; half = binary64 (binary64 m / 2)
      in \<bar>gridSize g\<bar> \<le> 2 ^ 53 \<and> \<bar>m\<bar> < 2 ^ 1023 \<and> \<bar>x p + half\<bar> < 2 ^ 1023 \<and> \<bar>z p + half\<bar> < 2 ^ 1023
         \<and> \<bar>binary64 (x p + half) / cellSize g\<bar> < 2 ^ 1023
         \<and> \<bar>binary64 (z p + half) / cellSize g\<bar> < 2 ^ 1023)"

definition exactRing :: "SpatialGrid \<Rightarrow> Position3D \<Rightarrow> real \<Rightarrow> bool" where
  "exactRing g p radius \<longleftrightarrow>
     \<bar>fst (getGridCoords_binary64 g p)\<bar> + \<lceil>binary64 (radius / cellSize g)\<rceil> < 2 ^ 53
     \<and> \<bar>snd (getGridCoords_binary64 g p)\<bar> + \<lceil>binary64 (radius / cellSize g)\<rceil> < 2 ^ 53"

definition edgeUnit :: Unit where
  "edgeUnit = fst (createUnit ''A'' Bee \<lparr> x = 50 - 7 / 2 ^ 47, y = 0, z = 0 \<rparr> 0 (envWithId ''a-unit''))"

definition innerUnit :: Unit where
  "innerUnit = fst (createUnit ''A'' Bee \<lparr> x = 0, y = 0, z = 0 \<rparr> 0 (envWithId ''b-unit''))"

definition edgeQuery :: Position3D where
  "edgeQuery = \<lparr> x = - (5 / 2 ^ 47), y = 0, z = 0 \<rparr>"

definition countSpecies :: "Unit list \<Rightarrow> string \<Rightarrow> AnimalId \<Rightarrow> nat" where
  "countSpecies us owner a = length (filter (\<lambda>u. kind u = Unit \<and> ownerId u = owner \<and> animal u = a) us)"

definition lookupCount :: "(string \<rightharpoonup> (AnimalId \<rightharpoonup> nat)) \<Rightarrow> string \<Rightarrow> AnimalId \<Rightarrow> nat" where
  "lookupCount c owner a = (case c owner of None \<Rightarrow> 0 | Some m \<Rightarrow> (case m a of None \<Rightarrow> 0 | Some n \<Rightarrow> n))"

definition species :: "Unit \<Rightarrow> UnitKind \<times> string \<times> AnimalId" where
  "species u = (kind u, ownerId u, animal u)"

definition spawnSpot :: "Store \<Rightarrow> nat \<Rightarrow> Position3D" where
  "spawnSpot d qi =
     (let q = units d ! qi;
          angle = presetAngles ! (cachedCount d (ownerId q) (animal q) mod 8)
      in \<lparr> x = x (position q) + cos angle * 2.5, y = 0, z = z (position q) + sin angle * 2.5 \<rparr>)"

definition spawnedUnit :: "Store \<Rightarrow> Env \<Rightarrow> nat \<Rightarrow> Unit" where
  "spawnedUnit d e qi =
     (let q = units d ! qi;
          made = createUnit (ownerId q) (animal q) (spawnSpot d qi)
                   (if Some (ownerId q) = localPlayerId d then pi else 0) e;
          placed = checkCollision (spawnSpot d qi) (fst made) (units d) 2.5
                     (selectedUnitIds d) (localPlayerId d) (unitOrders d) (snd made)
      in (fst (snd placed))\<lparr> position := fst placed \<rparr>)"

definition spawnDue :: "real \<Rightarrow> Store \<Rightarrow> nat \<Rightarrow> bool" where
  "spawnDue nowMs d qi \<longleftrightarrow>
     nowMs - (case lastSpawnAtMsByQueenId d (unit_id (units d ! qi)) of None \<Rightarrow> 0 | Some t \<Rightarrow> t)
       \<ge> spawnIntervalMs (config d)"

definition envCounting :: Env where
  "envCounting = \<lparr> randoms = (\<lambda>n. 0), randomsUsed = 0, clock = (\<lambda>n. 0), clockUsed = 0,
                    freshIds = (\<lambda>n. replicate (Suc n) CHR ''n''), freshIdsUsed = 0, distanceCache = [] \<rparr>"

definition hiveQueen :: "nat \<Rightarrow> Unit" where
  "hiveQueen k = fst (createQueen ''A'' Bee \<lparr> x = 100 * real k, y = 0, z = 0 \<rparr> pi
                        (envWithId (replicate (Suc k) CHR ''q'')))"

definition hiveWorker :: "nat \<Rightarrow> Unit" where
  "hiveWorker k = fst (createUnit ''A'' Bee \<lparr> x = 10 * real k, y = 0, z = 50 \<rparr> pi
                         (envWithId (replicate (Suc k) CHR ''w'')))"

definition hive :: "nat \<Rightarrow> nat \<Rightarrow> Store" where
  "hive n m = initialStore\<lparr> players := twoPlayers, localPlayerId := Some ''A'', matchStarted := True,
       units := map hiveQueen [0..<n] @ map hiveWorker [0..<m] \<rparr>"

definition calmStore :: "string \<Rightarrow> Store \<Rightarrow> bool" where
  "calmStore owner d \<longleftrightarrow>
     deadUnitsToRemove d = [] \<and> unitOrders d = Map.empty
     \<and> (\<forall>u\<in>set (units d). ownerId u = owner \<and> currentAttackers u = None \<and> priorityAttacker u = None)
     \<and> (\<exists>p. List.find (\<lambda>p. player_id p = owner) (players d) = Some p \<and> \<not> isAI p)"

definition peaceful :: "string \<Rightarrow> TickRun \<Rightarrow> bool" where
  "peaceful owner r \<longleftrightarrow>
     combatPairs r = [] \<and> deadUnitsToRemove (draft r) = [] \<and> unitOrders (draft r) = Map.empty
     \<and> (\<forall>u\<in>set (units (draft r)). ownerId u = owner \<and> currentAttackers u = None \<and> priorityAttacker u = None)
     \<and> (\<exists>p. List.find (\<lambda>p. player_id p = owner) (players (draft r)) = Some p \<and> \<not> isAI p)
     \<and> (\<forall>g k j. spatialGrid (draft r) = Some g \<longrightarrow> j \<in> set (cellUnits g k) \<longrightarrow> j < length (units (draft r)))"

section \<open>The spatial grid over the reals\<close>

text \<open>With the cell computation taken over the reals, a unit within the radius always lies in
  the ring of cells that the query visits, and the grid returns what a linear scan returns.\<close>

lemma getGridCoords_cong:
  "gridSize g' = gridSize g \<Longrightarrow> cellSize g' = cellSize g \<Longrightarrow> getGridCoords g' = getGridCoords g"
  by (rule ext) (simp add: getGridCoords_def)

lemma addUnit_sizes [simp]:
  "gridSize (addUnit us g i) = gridSize g" "cellSize (addUnit us g i) = cellSize g"
  by (simp_all add: addUnit_def Let_def)

lemma foldl_addUnit_sizes [simp]:
  "gridSize (foldl (addUnit us) g js) = gridSize g \<and> cellSize (foldl (addUnit us) g js) = cellSize g"
  by (induction js arbitrary: g) simp_all

lemma cellUnits_addUnit:
  "cellUnits (addUnit us g i) k =
     cellUnits g k @ (if getGridCoords g (position (us ! i)) = k then [i] else [])"
  by (simp add: addUnit_def cellUnits_def Let_def)

lemma cellUnits_foldl_addUnit:
  "cellUnits (foldl (addUnit us) g js) k =
     cellUnits g k @ filter (\<lambda>i. getGridCoords g (position (us ! i)) = k) js"
proof (induction js arbitrary: g)
  case Nil
  show ?case by simp
next
  case (Cons j js)
  have "getGridCoords (addUnit us g j) = getGridCoords g"
    by (rule getGridCoords_cong) simp_all
  with Cons show ?case by (simp add: cellUnits_addUnit)
qed

lemma cellUnits_buildFromUnits:
  "cellUnits (buildFromUnits us g) k =
     filter (\<lambda>i. getGridCoords g (position (us ! i)) = k) [0..<length us]"
proof -
  have "getGridCoords (clear g) = getGridCoords g"
    by (rule getGridCoords_cong) (simp_all add: clear_def)
  moreover have "cellUnits (clear g) k = []"
    by (simp add: clear_def cellUnits_def)
  ultimately show ?thesis
    by (simp add: buildFromUnits_def cellUnits_foldl_addUnit)
qed

lemma buildFromUnits_sizes [simp]:
  "gridSize (buildFromUnits us g) = gridSize g" "cellSize (buildFromUnits us g) = cellSize g"
  by (simp_all add: buildFromUnits_def clear_def)

lemma concat_nested_product:
  "concat (map (\<lambda>a. concat (map (G a) bs)) as) = concat (map (\<lambda>(a, b). G a b) (List.product as bs))"
  by (induction as) (simp_all add: comp_def)

lemma mset_concat_filter_keys:
  "distinct ks \<Longrightarrow>
   mset (concat (map (\<lambda>k. filter (\<lambda>i. f i = k \<and> Q i) xs) ks)) =
   mset (filter (\<lambda>i. f i \<in> set ks \<and> Q i) xs)"
proof (induction ks)
  case Nil
  show ?case by simp
next
  case (Cons k ks)
  have "mset (filter (\<lambda>i. f i = k \<and> Q i) xs) + mset (filter (\<lambda>i. f i \<in> set ks \<and> Q i) xs)
        = mset (filter (\<lambda>i. f i \<in> set (k # ks) \<and> Q i) xs)"
    using Cons.prems by (induction xs) auto
  with Cons show ?case by simp
qed

lemma floor_close:
  fixes a b :: real
  assumes "\<bar>a - b\<bar> \<le> r"
  shows "\<bar>\<lfloor>a\<rfloor> - \<lfloor>b\<rfloor>\<bar> \<le> \<lceil>r\<rceil>"
proof -
  have "a \<le> b + r" "b \<le> a + r" using assms by linarith+
  have "\<lfloor>a\<rfloor> \<le> \<lfloor>b\<rfloor> + \<lceil>r\<rceil>" using \<open>a \<le> b + r\<close> by linarith
  moreover have "\<lfloor>b\<rfloor> \<le> \<lfloor>a\<rfloor> + \<lceil>r\<rceil>" using \<open>b \<le> a + r\<close> by linarith
  ultimately show ?thesis by linarith
qed

lemma abs_le_distance:
  "\<bar>x a - x b\<bar> \<le> grid_distance3D a b" "\<bar>z a - z b\<bar> \<le> grid_distance3D a b"
proof -
  let ?s = "(x a - x b) * (x a - x b) + (y a - y b) * (y a - y b) + (z a - z b) * (z a - z b)"
  have "(x a - x b)\<^sup>2 \<le> ?s" by (simp add: power2_eq_square)
  then have "sqrt ((x a - x b)\<^sup>2) \<le> sqrt ?s" by (rule real_sqrt_le_mono)
  then show "\<bar>x a - x b\<bar> \<le> grid_distance3D a b" by (simp add: grid_distance3D_def)
  have "(z a - z b)\<^sup>2 \<le> ?s" by (simp add: power2_eq_square)
  then have "sqrt ((z a - z b)\<^sup>2) \<le> sqrt ?s" by (rule real_sqrt_le_mono)
  then show "\<bar>z a - z b\<bar> \<le> grid_distance3D a b" by (simp add: grid_distance3D_def)
qed


lemma coords_in_box:
  assumes cs: "0 < cellSize g" and d: "grid_distance3D p q \<le> r"
  shows "\<bar>fst (getGridCoords g q) - fst (getGridCoords g p)\<bar> \<le> \<lceil>r / cellSize g\<rceil>"
    and "\<bar>snd (getGridCoords g q) - snd (getGridCoords g p)\<bar> \<le> \<lceil>r / cellSize g\<rceil>"
proof -
  let ?o = "of_int (gridSize g) * cellSize g / 2"
  have "\<bar>x q - x p\<bar> \<le> r" using abs_le_distance(1)[of p q] d by linarith
  then have "\<bar>(x q + ?o) / cellSize g - (x p + ?o) / cellSize g\<bar> \<le> r / cellSize g"
    using cs by (simp add: diff_divide_distrib[symmetric] divide_right_mono)
  then show "\<bar>fst (getGridCoords g q) - fst (getGridCoords g p)\<bar> \<le> \<lceil>r / cellSize g\<rceil>"
    unfolding getGridCoords_def fst_conv by (rule floor_close)
  have "\<bar>z q - z p\<bar> \<le> r" using abs_le_distance(2)[of p q] d by linarith
  then have "\<bar>(z q + ?o) / cellSize g - (z p + ?o) / cellSize g\<bar> \<le> r / cellSize g"
    using cs by (simp add: diff_divide_distrib[symmetric] divide_right_mono)
  then show "\<bar>snd (getGridCoords g q) - snd (getGridCoords g p)\<bar> \<le> \<lceil>r / cellSize g\<rceil>"
    unfolding getGridCoords_def snd_conv by (rule floor_close)
qed

lemma getNearbyUnits_mset:
  assumes cs: "0 < cellSize g"
  shows "mset (getNearbyUnits us (buildFromUnits us g) p r) = mset (bruteForceNearby us p r)"
proof -
  define cr where "cr = \<lceil>r / cellSize g\<rceil>"
  define c where "c = getGridCoords g p"
  define L where "L = [- cr .. cr]"
  define key where "key = (\<lambda>i. getGridCoords g (position (us ! i)))"
  define P where "P = (\<lambda>i. grid_distance3D p (position (us ! i)) \<le> r)"
  define ks where "ks = map (\<lambda>(dx, dz). (fst c + dx, snd c + dz)) (List.product L L)"
  have gc: "getGridCoords (buildFromUnits us g) = getGridCoords g"
    by (rule getGridCoords_cong) simp_all
  have shape: "getNearbyUnits us (buildFromUnits us g) p r =
      concat (map (\<lambda>k. filter (\<lambda>i. key i = k \<and> P i) [0..<length us]) ks)"
    unfolding getNearbyUnits_def Let_def gc cellUnits_buildFromUnits buildFromUnits_sizes
      concat_nested_product ks_def
    by (simp add: comp_def case_prod_unfold cr_def c_def L_def key_def P_def)
  have "inj (\<lambda>(dx :: int, dz :: int). (fst c + dx, snd c + dz))"
    by (auto simp: inj_on_def)
  then have dist: "distinct ks"
    unfolding ks_def L_def by (simp add: distinct_map distinct_product inj_on_def)
  have box: "key i \<in> set ks" if "P i" for i
  proof -
    have a: "\<bar>fst (key i) - fst c\<bar> \<le> cr" and b: "\<bar>snd (key i) - snd c\<bar> \<le> cr"
      using coords_in_box[OF cs, of p "position (us ! i)" r] that
      by (simp_all add: key_def c_def cr_def P_def)
    have "(fst (key i) - fst c, snd (key i) - snd c) \<in> set (List.product L L)"
      using a b by (auto simp: L_def)
    then have "(\<lambda>(dx, dz). (fst c + dx, snd c + dz)) (fst (key i) - fst c, snd (key i) - snd c) \<in> set ks"
      unfolding ks_def by (simp only: set_map) (rule imageI)
    then show ?thesis by simp
  qed
  have "mset (getNearbyUnits us (buildFromUnits us g) p r) =
        mset (filter (\<lambda>i. key i \<in> set ks \<and> P i) [0..<length us])"
    unfolding shape by (rule mset_concat_filter_keys[OF dist])
  also have "filter (\<lambda>i. key i \<in> set ks \<and> P i) [0..<length us] = filter P [0..<length us]"
    by (rule filter_cong) (auto dest: box)
  finally show ?thesis by (simp add: bruteForceNearby_def P_def)
qed

section \<open>The win condition\<close>

lemma enemyHolds_iff:
  "enemyHolds us e \<longleftrightarrow> (\<exists>u\<in>set us. ownerId u = e \<and> (kind u = Base \<or> kind u = King \<or> kind u = Queen))"
  by (auto simp: enemyHolds_def filter_empty_conv)

lemma allEnemiesDefeated_iff:
  "allEnemiesDefeated us es \<longleftrightarrow> (\<forall>e\<in>set es. \<not> enemyHolds us e)"
  by (induction es) auto

lemma checkWinLoop_find:
  "checkWinLoop ids ps d =
     (case List.find (\<lambda>p. allEnemiesDefeated (units d) (filter (\<lambda>i. i \<noteq> p) ids)) ps of
        None \<Rightarrow> d
      | Some p \<Rightarrow> d\<lparr> gameOver := True, winner := Some p \<rparr>)"
  by (induction ps) (simp_all add: Let_def)

text \<open>
  Claim C1. Whenever the win-condition check runs, a player is recorded as winner and
  the match is marked over if and only if every opposing player holds no Base, no King
  and no Queen; the player recorded is the first such player in player order, and the
  check changes nothing else. When no such player exists the store is unchanged, so no
  winner is declared while an opposing Base, King or Queen is in the unit set.
\<close>

theorem checkWinConditions_first_winner:
  fixes d :: Store
  defines "ids \<equiv> map player_id (players d)"
  defines "wins \<equiv> \<lambda>p. \<forall>e\<in>set ids. e \<noteq> p \<longrightarrow>
             (\<forall>u\<in>set (units d). ownerId u = e \<longrightarrow> kind u \<noteq> Base \<and> kind u \<noteq> King \<and> kind u \<noteq> Queen)"
  shows "((\<exists>p\<in>set ids. wins p) \<longrightarrow>
            (\<exists>k<length ids. wins (ids ! k) \<and> (\<forall>j<k. \<not> wins (ids ! j))
               \<and> checkWinConditions d = d\<lparr> gameOver := True, winner := Some (ids ! k) \<rparr>))
       \<and> (\<not> (\<exists>p\<in>set ids. wins p) \<longrightarrow> checkWinConditions d = d)
       \<and> (\<not> gameOver d \<longrightarrow> (gameOver (checkWinConditions d) \<longleftrightarrow> (\<exists>p\<in>set ids. wins p)))"
proof -
  have w: "allEnemiesDefeated (units d) (filter (\<lambda>i. i \<noteq> p) ids) = wins p" for p
    unfolding wins_def allEnemiesDefeated_iff enemyHolds_iff by auto
  have cw: "checkWinConditions d =
      (case List.find wins ids of None \<Rightarrow> d | Some p \<Rightarrow> d\<lparr> gameOver := True, winner := Some p \<rparr>)"
    unfolding checkWinConditions_def Let_def checkWinLoop_find ids_def[symmetric] w ..
  show ?thesis
  proof (cases "List.find wins ids")
    case None
    then have "\<not> (\<exists>p\<in>set ids. wins p)" by (simp add: find_None_iff)
    with None cw show ?thesis by simp
  next
    case (Some p)
    then obtain k where k: "k < length ids" "wins (ids ! k)" "p = ids ! k" "\<forall>j<k. \<not> wins (ids ! j)"
      unfolding find_Some_iff by blast
    then have ex: "\<exists>p\<in>set ids. wins p" by (metis nth_mem)
    from Some cw k have "checkWinConditions d = d\<lparr> gameOver := True, winner := Some (ids ! k) \<rparr>" by simp
    with k ex show ?thesis by auto
  qed
qed


lemmas create_defs = createBase_def createQueen_def createKing_def createUnit_def nanoid_def
  envWithId_def baseStats_def Let_def

lemma winExample_units:
  "map (\<lambda>u. (ownerId u, kind u)) (units winExample) = [(''A'', Base), (''B'', Unit)]"
  by (simp add: winExample_def create_defs)

lemma winExample_ids: "map player_id (players winExample) = [''A'', ''B'']"
  by (simp add: winExample_def twoPlayers_def)

lemma winExample_wins:
  "\<forall>e\<in>set (map player_id (players winExample)). e \<noteq> ''A'' \<longrightarrow>
     (\<forall>u\<in>set (units winExample). ownerId u = e \<longrightarrow> kind u \<noteq> Base \<and> kind u \<noteq> King \<and> kind u \<noteq> Queen)"
proof -
  have "\<forall>pr\<in>set (map (\<lambda>u. (ownerId u, kind u)) (units winExample)).
          fst pr = ''B'' \<longrightarrow> snd pr \<noteq> Base \<and> snd pr \<noteq> King \<and> snd pr \<noteq> Queen"
    unfolding winExample_units by simp
  then have "\<forall>u\<in>set (units winExample). ownerId u = ''B'' \<longrightarrow> kind u \<noteq> Base \<and> kind u \<noteq> King \<and> kind u \<noteq> Queen"
    by simp
  then show ?thesis unfolding winExample_ids by simp
qed

theorem checkWinConditions_first_winner_witness:
  "\<not> gameOver winExample \<and> gameOver (checkWinConditions winExample)
   \<and> winner (checkWinConditions winExample) = Some ''A''"
proof -
  let ?ids = "map player_id (players winExample)"
  let ?wins = "\<lambda>p. \<forall>e\<in>set ?ids. e \<noteq> p \<longrightarrow>
     (\<forall>u\<in>set (units winExample). ownerId u = e \<longrightarrow> kind u \<noteq> Base \<and> kind u \<noteq> King \<and> kind u \<noteq> Queen)"
  have ng: "\<not> gameOver winExample" by (simp add: winExample_def initialStore_def)
  have w0: "?wins ''A''" by (rule winExample_wins)
  have A: "''A'' \<in> set ?ids" unfolding winExample_ids by simp
  have ex: "\<exists>p\<in>set ?ids. ?wins p" using w0 A by (rule bexI[of ?wins "''A''" "set ?ids"])
  have "\<exists>k<length ?ids. ?wins (?ids ! k) \<and> (\<forall>j<k. \<not> ?wins (?ids ! j))
     \<and> checkWinConditions winExample = winExample\<lparr> gameOver := True, winner := Some (?ids ! k) \<rparr>"
    using checkWinConditions_first_winner[of winExample, THEN conjunct1] ex by (rule mp)
  then obtain k where k: "\<forall>j<k. \<not> ?wins (?ids ! j)"
    "checkWinConditions winExample = winExample\<lparr> gameOver := True, winner := Some (?ids ! k) \<rparr>"
    by (elim exE conjE)
  have "k = 0"
  proof (rule ccontr)
    assume "k \<noteq> 0"
    then have "0 < k" by simp
    with k(1) have "\<not> ?wins (?ids ! 0)" by (elim allE impE) 
    moreover have "?ids ! 0 = ''A''" unfolding winExample_ids by simp
    ultimately show False using w0 by simp
  qed
  have "?ids ! k = ''A''" unfolding \<open>k = 0\<close> winExample_ids by simp
  with k(2) have "checkWinConditions winExample = winExample\<lparr> gameOver := True, winner := Some ''A'' \<rparr>"
    by simp
  then show ?thesis using ng by simp
qed

section \<open>Move orders and patrols\<close>

lemma map_update_same:
  "f (g (us ! i)) = f (us ! i) \<Longrightarrow> map f (us[i := g (us ! i)]) = map f us"
  by (cases "i < length us") (simp_all add: map_update list_update_same_conv list_update_beyond)

lemma map_updUnit:
  "(\<And>u. f (g u) = f u) \<Longrightarrow> map f (units (updUnit i g d)) = map f (units d)"
  by (simp add: updUnit_def map_update_same)

lemma orderUnit_frame [simp]:
  "queenPatrols (orderUnit tgt d uid) = queenPatrols d"
  "localPlayerId (orderUnit tgt d uid) = localPlayerId d"
  "map unit_id (units (orderUnit tgt d uid)) = map unit_id (units d)"
  "map ownerId (units (orderUnit tgt d uid)) = map ownerId (units d)"
     apply (auto simp: orderUnit_def map_updUnit split: option.splits)
   apply (simp_all add: updUnit_def)
  done

lemma findUnit_cong:
  "map unit_id us' = map unit_id us \<Longrightarrow> findUnit us' uid = findUnit us uid"
proof -
  assume a: "map unit_id us' = map unit_id us"
  then have l: "length us' = length us" by (rule map_eq_imp_length_eq)
  have "List.find (\<lambda>i. unit_id (us' ! i) = uid) [0..<length us] =
        List.find (\<lambda>i. unit_id (us ! i) = uid) [0..<length us]"
  proof (rule find_cong[OF refl])
    fix i assume "i \<in> set [0..<length us]"
    then have "i < length us" by simp
    then have "unit_id (us' ! i) = unit_id (us ! i)"
      using a l by (metis nth_map)
    then show "(unit_id (us' ! i) = uid) = (unit_id (us ! i) = uid)" by simp
  qed
  then show ?thesis by (simp add: findUnit_def l)
qed

lemma findUnit_Some:
  "findUnit us uid = Some i \<Longrightarrow> i < length us \<and> unit_id (us ! i) = uid"
  by (auto simp: findUnit_def find_Some_iff)

lemma moveCommand_frame:
  "queenPatrols (foldl (orderUnit tgt) d uids) = queenPatrols d
   \<and> localPlayerId (foldl (orderUnit tgt) d uids) = localPlayerId d
   \<and> map unit_id (units (foldl (orderUnit tgt) d uids)) = map unit_id (units d)
   \<and> map ownerId (units (foldl (orderUnit tgt) d uids)) = map ownerId (units d)"
  by (induction uids arbitrary: d) simp_all

lemma orderUnit_other:
  "unitOrders (orderUnit tgt d uid) k = (if k = uid then unitOrders (orderUnit tgt d uid) uid else unitOrders d k)"
  by (auto simp: orderUnit_def updUnit_def split: option.splits)

lemma orderUnit_sets:
  assumes "findUnit (units d) uid = Some i" "Some (ownerId (units d ! i)) = localPlayerId d"
  shows "unitOrders (orderUnit tgt d uid) uid = Some tgt"
  using assms by (simp add: orderUnit_def updUnit_def)

lemma orderUnit_keeps:
  "unitOrders d k = Some tgt \<Longrightarrow> unitOrders (orderUnit tgt d uid) k = Some tgt"
  by (auto simp: orderUnit_def updUnit_def split: option.splits)

lemma foldl_orderUnit_keeps:
  "unitOrders d k = Some tgt \<Longrightarrow> unitOrders (foldl (orderUnit tgt) d uids) k = Some tgt"
  by (induction uids arbitrary: d) (simp_all add: orderUnit_keeps)

lemma foldl_orderUnit_sets:
  assumes "uid \<in> set uids" "findUnit (units d) uid = Some i"
    "Some (ownerId (units d ! i)) = localPlayerId d"
  shows "unitOrders (foldl (orderUnit tgt) d uids) uid = Some tgt"
  using assms
proof (induction uids arbitrary: d)
  case Nil
  then show ?case by simp
next
  case (Cons a uids)
  show ?case
  proof (cases "a = uid")
    case True
    with Cons.prems have "unitOrders (orderUnit tgt d a) uid = Some tgt"
      by (simp add: orderUnit_sets)
    then show ?thesis by (simp add: foldl_orderUnit_keeps)
  next
    case False
    with Cons.prems have in_rest: "uid \<in> set uids" by simp
    have f: "findUnit (units (orderUnit tgt d a)) uid = Some i"
      using Cons.prems(2) findUnit_cong[OF orderUnit_frame(3)] by simp
    have "i < length (units d)" using Cons.prems(2) by (simp add: findUnit_Some)
    then have "ownerId (units (orderUnit tgt d a) ! i) = ownerId (units d ! i)"
      using orderUnit_frame(4)[of tgt d a] by (metis length_map nth_map)
    then have o: "Some (ownerId (units (orderUnit tgt d a) ! i)) = localPlayerId (orderUnit tgt d a)"
      using Cons.prems(3) by simp
    from Cons.IH[OF in_rest f o] show ?thesis by simp
  qed
qed

text \<open>
  Claim C5, as amended. A move order never touches the patrols: it sets the order of
  every caller-owned unit it names and leaves \<open>queenPatrols\<close> as it was, so an order and
  a patrol can both be active for a Queen. A patrol issued to a caller-owned Queen sets
  the patrol and clears the Queen's move order.
\<close>

theorem order_patrol_commands:
  "queenPatrols (moveCommand cmd d) = queenPatrols d
   \<and> (\<forall>uid i. uid \<in> set (unitIds cmd) \<longrightarrow> findUnit (units d) uid = Some i \<longrightarrow>
        Some (ownerId (units d ! i)) = localPlayerId d \<longrightarrow>
        unitOrders (moveCommand cmd d) uid = Some (target cmd))
   \<and> (\<forall>i. findUnit (units d) (queenId pcmd) = Some i \<longrightarrow>
        Some (ownerId (units d ! i)) = localPlayerId d \<longrightarrow> kind (units d ! i) = Queen \<longrightarrow>
        unitOrders (setPatrol pcmd d) (queenId pcmd) = None
        \<and> queenPatrols (setPatrol pcmd d) (queenId pcmd) =
            Some \<lparr> startPosition = cmdStartPosition pcmd, endPosition = cmdEndPosition pcmd,
                   currentTarget = end_target \<rparr>)"
  by (auto simp: moveCommand_def moveCommand_frame foldl_orderUnit_sets setPatrol_def)

theorem order_patrol_commands_witness:
  "unitOrders orderedQueenExample ''a-queen'' = Some \<lparr> x = 1, y = 0, z = 1 \<rparr>
   \<and> queenPatrols orderedQueenExample ''a-queen'' = Some patrolRoute
   \<and> queenPatrols (moveCommand moveQueen orderedQueenExample) = queenPatrols orderedQueenExample
   \<and> unitOrders (moveCommand moveQueen orderedQueenExample) ''a-queen'' = Some \<lparr> x = 5, y = 0, z = 5 \<rparr>
   \<and> unitOrders (setPatrol repatrolQueen orderedQueenExample) ''a-queen'' = None
   \<and> queenPatrols (setPatrol repatrolQueen orderedQueenExample) ''a-queen'' =
        Some \<lparr> startPosition = \<lparr> x = 2, y = 0, z = 2 \<rparr>, endPosition = \<lparr> x = 2, y = 0, z = 12 \<rparr>,
               currentTarget = end_target \<rparr>"
proof -
  have f: "findUnit (units orderedQueenExample) ''a-queen'' = Some 0"
    by (simp add: findUnit_def orderedQueenExample_def patrolExample_def create_defs)
  have o: "Some (ownerId (units orderedQueenExample ! 0)) = localPlayerId orderedQueenExample"
    by (simp add: orderedQueenExample_def patrolExample_def create_defs)
  have k: "kind (units orderedQueenExample ! 0) = Queen"
    by (simp add: orderedQueenExample_def patrolExample_def create_defs)
  have m: "''a-queen'' \<in> set (unitIds moveQueen)" "target moveQueen = \<lparr> x = 5, y = 0, z = 5 \<rparr>"
    by (simp_all add: moveQueen_def)
  have q: "queenId repatrolQueen = ''a-queen''" "cmdStartPosition repatrolQueen = \<lparr> x = 2, y = 0, z = 2 \<rparr>"
    "cmdEndPosition repatrolQueen = \<lparr> x = 2, y = 0, z = 12 \<rparr>"
    by (simp_all add: repatrolQueen_def)
  have b: "unitOrders orderedQueenExample ''a-queen'' = Some \<lparr> x = 1, y = 0, z = 1 \<rparr>"
    "queenPatrols orderedQueenExample ''a-queen'' = Some patrolRoute"
    by (simp_all add: orderedQueenExample_def patrolExample_def)
  from order_patrol_commands[of moveQueen orderedQueenExample repatrolQueen] f o k m q b
  show ?thesis by simp
qed

text \<open>
  The claim as stated fails: a caller-owned Queen with an active patrol that receives a
  move order has both an order and a patrol afterwards.
\<close>

theorem moveCommand_keeps_patrol_counterexample:
  "queenPatrols patrolExample ''a-queen'' \<noteq> None
   \<and> unitOrders (moveCommand moveQueen patrolExample) ''a-queen'' \<noteq> None
   \<and> queenPatrols (moveCommand moveQueen patrolExample) ''a-queen'' \<noteq> None"
  by (simp add: moveCommand_def moveQueen_def orderUnit_def findUnit_def updUnit_def
      patrolExample_def create_defs)

section \<open>A paused or unstarted match\<close>

text \<open>
  Claim C10. If the match has not started or the game is paused, \<open>tick\<close> returns the
  state it was given, for every \<open>dtSec\<close> and \<open>nowMs\<close>: no field of the store changes, and
  no ambient input is consumed.
\<close>

theorem tick_paused_unchanged:
  "\<not> matchStarted s \<or> isPaused s \<Longrightarrow> tick dtSec nowMs (s, e) = (s, e)"
  by (simp add: tick_def)

theorem tick_paused_unchanged_witness:
  "\<not> matchStarted initialStore
   \<and> tick (1 / 60) 1000 (initialStore, envWithId ''n'') = (initialStore, envWithId ''n'')"
proof -
  have h: "\<not> matchStarted initialStore" by (simp add: initialStore_def)
  then have "\<not> matchStarted initialStore \<or> isPaused initialStore" by simp
  from tick_paused_unchanged[OF this] h show ?thesis by simp
qed

section \<open>The separation resolver\<close>

lemma checkCollision_position:
  "fst (checkCollision np cur us cr sel loc orders e) =
     fst (foldl (pushAway cur sel loc) (np, False, e) (nearbyUnitsFor np cur us cr))"
  by (simp add: checkCollision_def Let_def split: prod.splits)

lemma nearbyUnitsFor_single:
  "unit_id other \<noteq> unit_id cur \<Longrightarrow> kind other \<noteq> Base \<Longrightarrow> nearbyUnitsFor np cur [other] cr = [other]"
  by (simp add: nearbyUnitsFor_def)

lemma sqrt_le_iff_sq:
  fixes r s :: real
  assumes "0 \<le> r"
  shows "sqrt s \<le> r \<longleftrightarrow> s \<le> r * r" "sqrt s < r \<longleftrightarrow> s < r * r"
    "r \<le> sqrt s \<longleftrightarrow> r * r \<le> s" "r < sqrt s \<longleftrightarrow> r * r < s"
proof -
  have r: "sqrt (r * r) = r" using assms by simp
  show "sqrt s \<le> r \<longleftrightarrow> s \<le> r * r" using real_sqrt_le_iff[of s "r * r"] r by simp
  show "sqrt s < r \<longleftrightarrow> s < r * r" using real_sqrt_less_iff[of s "r * r"] r by simp
  show "r \<le> sqrt s \<longleftrightarrow> r * r \<le> s" using real_sqrt_le_iff[of "r * r" s] r by simp
  show "r < sqrt s \<longleftrightarrow> r * r < s" using real_sqrt_less_iff[of "r * r" s] r by simp
qed

lemma sqrt_scaled:
  fixes a b k :: real
  assumes "0 \<le> k"
  shows "sqrt ((a * k) * (a * k) + (b * k) * (b * k)) = k * sqrt (a * a + b * b)"
proof -
  have "(a * k) * (a * k) + (b * k) * (b * k) = k\<^sup>2 * (a * a + b * b)"
    by (simp add: power2_eq_square algebra_simps)
  then show ?thesis using assms by (simp add: real_sqrt_mult)
qed

lemma pushed_distance:
  fixes a b d p :: real
  assumes d: "d = sqrt (a * a + b * b)" and pos: "0 < d" and p: "0 \<le> p"
  shows "sqrt ((a + a * (1 / d) * p) * (a + a * (1 / d) * p) + (b + b * (1 / d) * p) * (b + b * (1 / d) * p)) = d + p"
proof -
  have k: "0 \<le> 1 + p / d" using pos p by simp
  have "a + a * (1 / d) * p = a * (1 + p / d)" "b + b * (1 / d) * p = b * (1 + p / d)"
    by (simp_all add: algebra_simps)
  then have "sqrt ((a + a * (1 / d) * p) * (a + a * (1 / d) * p) + (b + b * (1 / d) * p) * (b + b * (1 / d) * p))
      = (1 + p / d) * sqrt (a * a + b * b)"
    using sqrt_scaled[OF k, of a b] by simp
  also have "\<dots> = (1 + p / d) * d" by (simp only: d)
  also have "\<dots> = d + p" using pos by (simp add: field_simps)
  finally show ?thesis .
qed

lemma pushAway_far:
  assumes "2.5 \<le> planarDistance np (position other)"
  shows "pushAway cur sel loc (np, hc, e) other = (np, hc, e)"
proof -
  let ?s = "(x np - x (position other)) * (x np - x (position other)) + (z np - z (position other)) * (z np - z (position other))"
  have "2.5 \<le> sqrt ?s" using assms by (simp add: planarDistance_def)
  then have "2.5 * 2.5 \<le> ?s" by (subst (asm) sqrt_le_iff_sq(3)) simp_all
  then show ?thesis by (simp add: pushAway_def Let_def)
qed

lemma pushAway_melee:
  assumes "ownerId cur \<noteq> ownerId other" "planarDistance np (position other) \<le> 2"
  shows "pushAway cur sel loc (np, hc, e) other = (np, hc, e)"
proof -
  let ?s = "(x np - x (position other)) * (x np - x (position other)) + (z np - z (position other)) * (z np - z (position other))"
  have "sqrt ?s \<le> 2" using assms by (simp add: planarDistance_def)
  then have "?s \<le> 2 * 2" by (subst (asm) sqrt_le_iff_sq(1)) simp_all
  then show ?thesis using assms by (simp add: pushAway_def Let_def)
qed

lemma pushAway_enemy:
  assumes en: "ownerId cur \<noteq> ownerId other"
    and lo: "2 < planarDistance np (position other)" and hi: "planarDistance np (position other) < 2.5"
  shows "planarDistance (fst (pushAway cur sel loc (np, hc, e) other)) (position other) = 2.7"
proof -
  let ?a = "x np - x (position other)" and ?b = "z np - z (position other)"
  let ?s = "?a * ?a + ?b * ?b"
  let ?d = "sqrt ?s"
  have d: "planarDistance np (position other) = ?d" by (simp add: planarDistance_def)
  have "2 < ?d" using lo d by simp
  then have "2 * 2 < ?s" by (subst (asm) sqrt_le_iff_sq(4)) simp_all
  then have s4: "\<not> ?s \<le> 4" by simp
  have "?d < 2.5" using hi d by simp
  then have s6: "?s < 2.5 * 2.5" by (subst (asm) sqrt_le_iff_sq(2)) simp_all
  have c: "(0::real) < 2" "(0.001::real) < 2" by simp_all
  have dpos: "0 < ?d" using c(1) lo unfolding d by (rule less_trans)
  have "0.001 < ?d" using c(2) lo unfolding d by (rule less_trans)
  then have d001: "\<not> ?d < 0.001" by (simp only: not_less less_imp_le)
  have p: "0 \<le> 2.5 - ?d + 0.2" using hi d by simp
  have "fst (pushAway cur sel loc (np, hc, e) other) =
      np\<lparr> x := x np + ?a * (1 / ?d) * (2.5 - ?d + 0.2), z := z np + ?b * (1 / ?d) * (2.5 - ?d + 0.2) \<rparr>"
    using en s4 s6 d001 by (simp add: pushAway_def Let_def)
  then have "planarDistance (fst (pushAway cur sel loc (np, hc, e) other)) (position other) =
      sqrt ((?a + ?a * (1 / ?d) * (2.5 - ?d + 0.2)) * (?a + ?a * (1 / ?d) * (2.5 - ?d + 0.2))
          + (?b + ?b * (1 / ?d) * (2.5 - ?d + 0.2)) * (?b + ?b * (1 / ?d) * (2.5 - ?d + 0.2)))"
    by (simp add: planarDistance_def algebra_simps)
  also have "\<dots> = ?d + (2.5 - ?d + 0.2)" by (rule pushed_distance[OF refl dpos p])
  finally show ?thesis by simp
qed

lemma pushAway_friendly:
  assumes fr: "ownerId cur = ownerId other"
    and lo: "0.001 \<le> planarDistance np (position other)" and hi: "planarDistance np (position other) < 2.5"
  shows "planarDistance (fst (pushAway cur sel loc (np, hc, e) other)) (position other) =
      planarDistance np (position other)
        + (2.5 - planarDistance np (position other)) * pushStrengthFor cur other sel loc"
proof -
  let ?a = "x np - x (position other)" and ?b = "z np - z (position other)"
  let ?s = "?a * ?a + ?b * ?b"
  let ?d = "sqrt ?s"
  let ?k = "pushStrengthFor cur other sel loc"
  have d: "planarDistance np (position other) = ?d" by (simp add: planarDistance_def)
  have "?d < 2.5" using hi d by simp
  then have s6: "?s < 2.5 * 2.5" by (subst (asm) sqrt_le_iff_sq(2)) simp_all
  have c: "(0::real) < 0.001" by simp
  have lo': "0.001 \<le> ?d" using lo unfolding d .
  have dpos: "0 < ?d" using c lo' by (rule less_le_trans)
  have d001: "\<not> ?d < 0.001" using lo' by (simp only: not_less)
  have k: "0 \<le> ?k" by (simp add: pushStrengthFor_def)
  have p: "0 \<le> (2.5 - ?d) * ?k" using hi d k by simp
  have "fst (pushAway cur sel loc (np, hc, e) other) =
      np\<lparr> x := x np + ?a * (1 / ?d) * ((2.5 - ?d) * ?k), z := z np + ?b * (1 / ?d) * ((2.5 - ?d) * ?k) \<rparr>"
    using fr s6 d001 by (simp add: pushAway_def Let_def pushStrengthFor_def)
  then have "planarDistance (fst (pushAway cur sel loc (np, hc, e) other)) (position other) =
      sqrt ((?a + ?a * (1 / ?d) * ((2.5 - ?d) * ?k)) * (?a + ?a * (1 / ?d) * ((2.5 - ?d) * ?k))
          + (?b + ?b * (1 / ?d) * ((2.5 - ?d) * ?k)) * (?b + ?b * (1 / ?d) * ((2.5 - ?d) * ?k)))"
    by (simp add: planarDistance_def algebra_simps)
  also have "\<dots> = ?d + (2.5 - ?d) * ?k" by (rule pushed_distance[OF refl dpos p])
  finally show ?thesis using d by simp
qed

text \<open>
  Claim C4, as amended. Distances are measured on the ground plane (x and z), as the
  resolver measures them. When a tentative position is resolved against one other unit
  that is not a Base: an enemy found strictly between 2 and 2.5 away ends exactly 2.7
  away; a friendly unit found at least 0.001 and less than 2.5 away ends at the old
  distance plus half of the shortfall to 2.5 (a fifth of it when a selected unit of the
  local player pushes through an unselected one), which is farther than before and still
  less than 2.5; an enemy within 2 and any unit at 2.5 or more leave the position
  unchanged. Nothing is promised about the spacing after pushes from several units.
\<close>

theorem checkCollision_single_neighbour:
  assumes "unit_id other \<noteq> unit_id cur" "kind other \<noteq> Base"
  shows "(ownerId cur \<noteq> ownerId other \<and> 2 < planarDistance np (position other)
            \<and> planarDistance np (position other) < 2.5
          \<longrightarrow> planarDistance (fst (checkCollision np cur [other] cr sel loc orders e)) (position other) = 2.7)
       \<and> (ownerId cur = ownerId other \<and> 0.001 \<le> planarDistance np (position other)
            \<and> planarDistance np (position other) < 2.5
          \<longrightarrow> planarDistance (fst (checkCollision np cur [other] cr sel loc orders e)) (position other)
                = planarDistance np (position other)
                  + (2.5 - planarDistance np (position other)) * pushStrengthFor cur other sel loc
              \<and> planarDistance np (position other)
                  < planarDistance (fst (checkCollision np cur [other] cr sel loc orders e)) (position other)
              \<and> planarDistance (fst (checkCollision np cur [other] cr sel loc orders e)) (position other) < 2.5)
       \<and> ((ownerId cur \<noteq> ownerId other \<and> planarDistance np (position other) \<le> 2)
            \<or> 2.5 \<le> planarDistance np (position other)
          \<longrightarrow> fst (checkCollision np cur [other] cr sel loc orders e) = np)"
proof -
  let ?pd = "planarDistance np (position other)"
  let ?k = "pushStrengthFor cur other sel loc"
  have res: "fst (checkCollision np cur [other] cr sel loc orders e)
      = fst (pushAway cur sel loc (np, False, e) other)"
    using assms by (simp add: checkCollision_position nearbyUnitsFor_single)
  have k: "0 < ?k" "?k < 1" by (simp_all add: pushStrengthFor_def)
  have fr: "?pd < ?pd + (2.5 - ?pd) * ?k \<and> ?pd + (2.5 - ?pd) * ?k < 2.5" if "?pd < 2.5"
  proof -
    have g: "0 < 2.5 - ?pd" using that by simp
    have "0 < (2.5 - ?pd) * ?k" using g k(1) by (rule mult_pos_pos)
    moreover have "(2.5 - ?pd) * ?k < (2.5 - ?pd) * 1" using k(2) g by (rule mult_strict_left_mono)
    ultimately show ?thesis by simp
  qed
  show ?thesis
    unfolding res
    using pushAway_enemy[of cur other np sel loc False e]
      pushAway_friendly[of cur other np sel loc False e]
      pushAway_melee[of cur other np sel loc False e]
      pushAway_far[of np other cur sel loc False e] fr
    by auto
qed

theorem checkCollision_single_neighbour_witness:
  "ownerId friendA1 = ownerId friendA2
   \<and> planarDistance (fst (checkCollision oneAway friendA1 [friendA2] 2.5 [] (Some ''A'') Map.empty (envWithId ''n'')))
        (position friendA2) = 1 + (2.5 - 1) * 0.5"
proof -
  have i: "unit_id friendA2 \<noteq> unit_id friendA1" "kind friendA2 \<noteq> Base"
    and o: "ownerId friendA1 = ownerId friendA2"
    by (simp_all add: friendA1_def friendA2_def create_defs)
  have pd: "planarDistance oneAway (position friendA2) = 1"
    by (simp add: planarDistance_def oneAway_def friendA2_def origin_def create_defs)
  have k: "pushStrengthFor friendA1 friendA2 [] (Some ''A'') = 0.5"
    by (simp add: pushStrengthFor_def)
  from checkCollision_single_neighbour[OF i, of oneAway "2.5" "[]" "Some ''A''" Map.empty "envWithId ''n''"]
    o pd k
  show ?thesis by simp
qed

text \<open>
  The claim as stated fails: a friendly unit found at distance 1 is left at distance 1.75
  after resolution, closer than 2.5.
\<close>

theorem checkCollision_friendly_counterexample:
  "ownerId friendA1 = ownerId friendA2
   \<and> x (fst (checkCollision oneAway friendA1 [friendA2] 2.5 [] (Some ''A'') Map.empty (envWithId ''n''))) = 7 / 4
   \<and> z (fst (checkCollision oneAway friendA1 [friendA2] 2.5 [] (Some ''A'') Map.empty (envWithId ''n''))) = 0
   \<and> position friendA2 = origin
   \<and> planarDistance (fst (checkCollision oneAway friendA1 [friendA2] 2.5 [] (Some ''A'') Map.empty (envWithId ''n'')))
        (position friendA2) < 2.5"
proof -
  have res: "fst (checkCollision oneAway friendA1 [friendA2] 2.5 [] (Some ''A'') Map.empty (envWithId ''n''))
      = \<lparr> x = 7 / 4, y = 0, z = 0 \<rparr>"
    by (simp add: checkCollision_def nearbyUnitsFor_def pushAway_def oneAway_def friendA1_def friendA2_def
        origin_def create_defs)
  have pos: "position friendA2 = origin" by (simp add: friendA2_def create_defs)
  have "planarDistance \<lparr> x = 7 / 4, y = 0, z = 0 \<rparr> origin < 2.5"
    unfolding planarDistance_def by (subst sqrt_le_iff_sq(2)) (simp_all add: origin_def)
  with res pos show ?thesis by (simp add: friendA1_def friendA2_def create_defs)
qed

section \<open>Fields the behavior pass never writes\<close>

lemma core_update [simp]:
  "core (position_update f0 u) = core u"
  "core (attackCooldownMs_update f1 u) = core u"
  "core (lastAttackAtMs_update f2 u) = core u"
  "core (rotation_update f3 u) = core u"
  "core (moveSpeed_update f4 u) = core u"
  "core (arrivedAtDestinationMs_update f5 u) = core u"
  "core (collisionAttempts_update f6 u) = core u"
  "core (movementPausedUntilMs_update f7 u) = core u"
  "core (hopPhase_update f8 u) = core u"
  "core (isHopping_update f9 u) = core u"
  "core (wingPhase_update f10 u) = core u"
  "core (isFlying_update f11 u) = core u"
  "core (nearDestinationSinceMs_update f12 u) = core u"
  "core (lastCombatTargetId_update f13 u) = core u"
  "core (lastCombatEngagementMs_update f14 u) = core u"
  "core (unitState_update f15 u) = core u"
  "core (firstBlockedAtMs_update f16 u) = core u"
  "core (currentAttackers_update f17 u) = core u"
  "core (priorityAttacker_update f18 u) = core u"
  by (simp_all add: core_def)

lemma core_updUnit:
  "(\<And>u. core (g u) = core u) \<Longrightarrow> map core (units (updUnit i g d)) = map core (units d)"
  by (rule map_updUnit)

lemma core_checkCollision:
  "core (fst (snd (checkCollision np cur us cr sel loc orders e))) = core cur"
  by (simp add: checkCollision_def Let_def core_def split: prod.splits)

lemma core_hopStep [simp]: "core (hopStep dt u) = core u"
  by (simp add: hopStep_def Let_def)

lemma core_after_collision:
  assumes "checkCollision np (us ! i) us' cr sel loc orders e = (p, u1, e1)"
  shows "map core (us[i := u1\<lparr> position := p \<rparr>]) = map core us"
proof -
  have "core u1 = core (us ! i)"
    using core_checkCollision[of np "us ! i" us' cr sel loc orders e] assms by simp
  then have "core (u1\<lparr> position := p \<rparr>) = core (us ! i)" by simp
  then show ?thesis
    by (cases "i < length us") (simp_all add: map_update list_update_same_conv list_update_beyond)
qed

lemma core_moveAlong [simp]:
  "map core (units (draft (moveAlong a i dir r))) = map core (units (draft r))"
  by (auto simp: moveAlong_def Let_def split: prod.splits intro: core_after_collision)

lemma combatPairs_moveAlong [simp]: "combatPairs (moveAlong a i dir r) = combatPairs r"
  by (simp add: moveAlong_def Let_def split: prod.splits)

lemma core_clearOrder [simp]: "map core (units (clearOrder i d)) = map core (units d)"
  by (simp add: clearOrder_def core_updUnit)

lemma core_blockedUpdate [simp]: "map core (units (blockedUpdate nowMs i d)) = map core (units d)"
  by (simp add: blockedUpdate_def Let_def core_updUnit split: option.splits)

lemma core_playerOrderBranch [simp]:
  "map core (units (draft (fst (playerOrderBranch dt nowMs i ord r)))) = map core (units (draft r))"
  by (simp add: playerOrderBranch_def Let_def core_updUnit split: prod.splits option.splits)

lemma combatPairs_playerOrderBranch [simp]:
  "combatPairs (fst (playerOrderBranch dt nowMs i ord r)) = combatPairs r"
  by (simp add: playerOrderBranch_def Let_def split: prod.splits option.splits)

lemma core_playerIdleBranch [simp]:
  "map core (units (draft (fst (playerIdleBranch nowMs i r)))) = map core (units (draft r))"
  by (simp add: playerIdleBranch_def Let_def core_updUnit split: prod.splits option.splits)

lemma combatPairs_playerIdleBranch [simp]:
  "combatPairs (fst (playerIdleBranch nowMs i r)) = combatPairs r"
  by (simp add: playerIdleBranch_def Let_def split: prod.splits option.splits)

lemma core_aiOrderBranch [simp]:
  "map core (units (draft (aiOrderBranch dt nowMs i ord r))) = map core (units (draft r))"
  by (simp add: aiOrderBranch_def Let_def core_updUnit split: prod.splits option.splits)

lemma combatPairs_aiOrderBranch [simp]:
  "combatPairs (aiOrderBranch dt nowMs i ord r) = combatPairs r"
  by (simp add: aiOrderBranch_def Let_def split: prod.splits option.splits)

lemma core_patrolBranch [simp]:
  "map core (units (draft (patrolBranch dt i pat r))) = map core (units (draft r))"
  by (simp add: patrolBranch_def Let_def core_updUnit split: prod.splits option.splits)

lemma combatPairs_patrolBranch [simp]:
  "combatPairs (patrolBranch dt i pat r) = combatPairs r"
  by (simp add: patrolBranch_def Let_def split: prod.splits option.splits)

lemma core_aiThinkBranch [simp]:
  "map core (units (draft (fst (aiThinkBranch i r)))) = map core (units (draft r))"
  by (simp add: aiThinkBranch_def Let_def split: prod.splits option.splits)

lemma combatPairs_aiThinkBranch [simp]:
  "combatPairs (fst (aiThinkBranch i r)) = combatPairs r"
  by (simp add: aiThinkBranch_def Let_def split: prod.splits option.splits)

lemma core_aiCachedBranch [simp]:
  "map core (units (draft (fst (aiCachedBranch nowMs i r)))) = map core (units (draft r))"
  by (simp add: aiCachedBranch_def Let_def split: prod.splits option.splits)

lemma combatPairs_aiCachedBranch [simp]:
  "combatPairs (fst (aiCachedBranch nowMs i r)) = combatPairs r"
  by (simp add: aiCachedBranch_def Let_def split: prod.splits option.splits)

lemma core_fireAttack [simp]:
  "map core (units (draft (fireAttack nowMs i t r))) = map core (units (draft r))"
  by (simp add: fireAttack_def Let_def core_updUnit)

lemma combatPairs_fireAttack [simp]:
  "combatPairs (fireAttack nowMs i t r) = combatPairs r @ [(i, t, attackDamage (units (draft r) ! i))]"
  by (simp add: fireAttack_def Let_def)

lemma core_combatExecution [simp]:
  "map core (units (draft (combatExecution dt nowMs i tgt r))) = map core (units (draft r))"
  by (simp add: combatExecution_def Let_def core_updUnit split: option.splits)

text \<open>What the combat execution section queues.\<close>

lemma attackDamage_updUnit_rotation [simp]:
  "attackDamage (units (updUnit i (rotation_update f) d) ! i) = attackDamage (units d ! i)"
  by (cases "i < length (units d)") (simp_all add: updUnit_def list_update_beyond)

lemma combatPairs_combatExecution:
  "combatPairs (combatExecution dt nowMs i tgt r) =
     (case tgt of
        None \<Rightarrow> combatPairs r
      | Some t \<Rightarrow>
          if distanceSquared3D (position (units (draft r) ! i)) (position (units (draft r) ! t)) \<le> 16
             \<and> nowMs - lastAttackAtMs (units (draft r) ! i) \<ge> attackCooldownMs (units (draft r) ! i)
          then combatPairs r @ [(i, t, attackDamage (units (draft r) ! i))]
          else combatPairs r)"
  by (simp add: combatExecution_def Let_def split: option.splits)

lemma core_decideUnit [simp]:
  "map core (units (draft (fst (decideUnit dt nowMs r i)))) = map core (units (draft r))"
  by (simp add: decideUnit_def Let_def split_beta core_updUnit split: option.splits)

lemma combatPairs_decideUnit [simp]:
  "combatPairs (fst (decideUnit dt nowMs r i)) = combatPairs r"
  by (simp add: decideUnit_def Let_def split_beta split: option.splits)

lemma core_behaveUnit [simp]:
  "map core (units (draft (behaveUnit dt nowMs r i))) = map core (units (draft r))"
  by (simp add: behaveUnit_def split_beta)

lemma core_nth:
  "map core us' = map core us \<Longrightarrow> i < length us \<Longrightarrow> core (us' ! i) = core (us ! i)"
  by (metis length_map nth_map)

lemma attackDamage_core: "core u' = core u \<Longrightarrow> attackDamage u' = attackDamage u"
  by (simp add: core_def)

lemma combatPairs_behaveUnit:
  assumes "i < length (units (draft r))"
  shows "combatPairs (behaveUnit dt nowMs r i) = combatPairs r
       \<or> (\<exists>t. combatPairs (behaveUnit dt nowMs r i) = combatPairs r @ [(i, t, attackDamage (units (draft r) ! i))])"
proof -
  have "attackDamage (units (draft (fst (decideUnit dt nowMs r i))) ! i) = attackDamage (units (draft r) ! i)"
    using core_nth[OF core_decideUnit assms] by (rule attackDamage_core)
  then show ?thesis
    by (simp add: behaveUnit_def split_beta combatPairs_combatExecution split: option.splits)
qed

lemma core_behaviorPass [simp]:
  "map core (units (draft (behaviorPass dt nowMs ms r))) = map core (units (draft r))"
  unfolding behaviorPass_def by (induction ms arbitrary: r) simp_all

lemma damageOk_behaviorPass:
  assumes "\<forall>u\<in>set (units (draft r)). 0 \<le> attackDamage u" "damageOk r"
    "\<forall>i\<in>set ms. i < length (units (draft r))"
  shows "damageOk (behaviorPass dt nowMs ms r)"
  using assms unfolding behaviorPass_def
proof (induction ms arbitrary: r)
  case Nil
  then show ?case by simp
next
  case (Cons i ms)
  let ?r = "behaveUnit dt nowMs r i"
  have i: "i < length (units (draft r))" using Cons.prems(3) by simp
  have c: "map core (units (draft ?r)) = map core (units (draft r))" by simp
  then have len: "length (units (draft ?r)) = length (units (draft r))" by (rule map_eq_imp_length_eq)
  have a: "\<forall>u\<in>set (units (draft ?r)). 0 \<le> attackDamage u"
  proof
    fix u assume "u \<in> set (units (draft ?r))"
    then obtain k where k: "k < length (units (draft ?r))" "u = units (draft ?r) ! k"
      by (metis in_set_conv_nth)
    then have "core u = core (units (draft r) ! k)" using core_nth[OF c] len by simp
    then have "attackDamage u = attackDamage (units (draft r) ! k)" by (rule attackDamage_core)
    moreover have "units (draft r) ! k \<in> set (units (draft r))" using k len by simp
    ultimately show "0 \<le> attackDamage u" using Cons.prems(1) by simp
  qed
  have "0 \<le> attackDamage (units (draft r) ! i)" using Cons.prems(1) i by simp
  then have d: "damageOk ?r"
    using combatPairs_behaveUnit[OF i, of dt nowMs] Cons.prems(2) by (auto simp: damageOk_def)
  have m: "\<forall>j\<in>set ms. j < length (units (draft ?r))" using Cons.prems(3) len by simp
  from Cons.IH[OF a d m] show ?case by simp
qed

section \<open>Hit points through a tick\<close>

lemma unitOk_core: "core u' = core u \<Longrightarrow> unitOk u' = unitOk u"
  by (simp add: core_def unitOk_def)

lemma healthy_core:
  assumes "map core us' = map core us"
  shows "healthy us' = healthy us"
proof -
  have len: "length us' = length us" using assms by (rule map_eq_imp_length_eq)
  have "unitOk (us' ! i) = unitOk (us ! i)" if "i < length us" for i
    using core_nth[OF assms that] by (rule unitOk_core)
  then show ?thesis unfolding healthy_def all_set_conv_all_nth len by simp
qed

lemma healthy_update:
  assumes "healthy us" "i < length us \<Longrightarrow> unitOk v"
  shows "healthy (us[i := v])"
proof (cases "i < length us")
  case True
  then show ?thesis using assms set_update_subset_insert[of us i v] by (auto simp: healthy_def)
next
  case False
  then show ?thesis using assms by (simp add: list_update_beyond)
qed

lemma healthy_regenUnit:
  assumes "healthy (units d)"
  shows "healthy (units (regenUnit nowMs d i))"
proof -
  have "unitOk ((units d ! i)\<lparr> hp := min (maxHp (units d ! i)) (hp (units d ! i) + REGEN_AMOUNT) \<rparr>)"
    if "i < length (units d)" "\<not> hp (units d ! i) \<le> 0"
  proof -
    have "unitOk (units d ! i)" using assms that(1) by (simp add: healthy_def)
    then show ?thesis by (simp add: unitOk_def REGEN_AMOUNT_def)
  qed
  then show ?thesis
    using assms by (auto simp: regenUnit_def Let_def intro!: healthy_update split: option.splits)
qed

lemma healthy_regenPass:
  assumes "healthy (units d)"
  shows "healthy (units (regenPass nowMs hs d))"
proof -
  have "healthy (units (foldl (regenUnit nowMs) d js))" for js
    using assms by (induction js arbitrary: d) (simp_all add: healthy_regenUnit)
  then show ?thesis using assms by (simp add: regenPass_def Let_def)
qed

lemma hp_ANIMALS: "0 < baseHp (ANIMALS a)" "0 \<le> dmg (ANIMALS a)"
  by (cases a; simp)+

lemma unitOk_createUnit: "unitOk (fst (createUnit owner a pos rot e))"
  by (simp add: createUnit_def baseStats_def Let_def split_beta unitOk_def hp_ANIMALS)

lemma unitOk_after_collision:
  "unitOk cur \<Longrightarrow> unitOk ((fst (snd (checkCollision np cur us cr sel loc ords e)))\<lparr> position := p \<rparr>)"
proof -
  have "core ((fst (snd (checkCollision np cur us cr sel loc ords e)))\<lparr> position := p \<rparr>) = core cur"
    by (simp add: core_checkCollision)
  then have "unitOk ((fst (snd (checkCollision np cur us cr sel loc ords e)))\<lparr> position := p \<rparr>) = unitOk cur"
    by (rule unitOk_core)
  then show "unitOk cur \<Longrightarrow> ?thesis" by simp
qed

lemma healthy_spawnFromQueen:
  assumes "healthy (units (fst de))"
  shows "healthy (units (fst (spawnFromQueen nowMs de qi)))"
  using assms
  by (cases de)
     (simp add: spawnFromQueen_def Let_def split_beta healthy_def unitOk_after_collision unitOk_createUnit)

lemma healthy_spawnPass:
  assumes "healthy (units (fst de))"
  shows "healthy (units (fst (spawnPass nowMs qs de)))"
  using assms unfolding spawnPass_def
  by (induction qs arbitrary: de) (simp_all add: healthy_spawnFromQueen)

lemma deathsRecorded_healthy: "healthy (units d) \<Longrightarrow> deathsRecorded d"
  by (auto simp: healthy_def unitOk_def deathsRecorded_def)

lemma deadUnitsToRemove_moveAlong [simp]:
  "deadUnitsToRemove (draft (moveAlong a i dir r)) = deadUnitsToRemove (draft r)"
  by (simp add: moveAlong_def Let_def split_beta)

lemma deathsRecorded_core:
  assumes "map core (units d') = map core (units d)" "deadUnitsToRemove d' = deadUnitsToRemove d"
  shows "deathsRecorded d' = deathsRecorded d"
proof -
  have len: "length (units d') = length (units d)" using assms(1) by (rule map_eq_imp_length_eq)
  have "hp (units d' ! i) = hp (units d ! i) \<and> maxHp (units d' ! i) = maxHp (units d ! i)
      \<and> attackDamage (units d' ! i) = attackDamage (units d ! i)
      \<and> unit_id (units d' ! i) = unit_id (units d ! i)" if "i < length (units d)" for i
    using core_nth[OF assms(1) that] by (simp add: core_def)
  then show ?thesis unfolding deathsRecorded_def all_set_conv_all_nth len assms(2) by simp
qed

lemma deathsRecorded_hit:
  assumes "deathsRecorded d" "0 \<le> damage"
  shows "deathsRecorded
     (let d1 = updUnit t (\<lambda>u. u\<lparr> hp := hp u - damage \<rparr>) d; tu = units d1 ! t
      in if hp tu \<le> 0 then d1\<lparr> deadUnitsToRemove := deadUnitsToRemove d1 @ [unit_id tu] \<rparr> else d1)"
proof (cases "t < length (units d)")
  case True
  let ?tu = "(units d ! t)\<lparr> hp := hp (units d ! t) - damage \<rparr>"
  have old: "hp (units d ! t) \<le> maxHp (units d ! t) \<and> 0 \<le> attackDamage (units d ! t)"
    using assms(1) True by (simp add: deathsRecorded_def)
  have sub: "set ((units d)[t := ?tu]) \<subseteq> insert ?tu (set (units d))"
    by (rule set_update_subset_insert)
  have "hp u \<le> maxHp u \<and> 0 \<le> attackDamage u
      \<and> (hp u \<le> 0 \<longrightarrow> unit_id u \<in> set (if hp ?tu \<le> 0 then deadUnitsToRemove d @ [unit_id ?tu] else deadUnitsToRemove d))"
    if "u \<in> set ((units d)[t := ?tu])" for u
  proof -
    from that sub consider "u = ?tu" | "u \<in> set (units d)" by blast
    then show ?thesis
    proof cases
      case 1
      then show ?thesis using old assms(2) by simp
    next
      case 2
      then show ?thesis using assms(1) by (auto simp: deathsRecorded_def)
    qed
  qed
  then have "\<forall>u\<in>set ((units d)[t := ?tu]). hp u \<le> maxHp u \<and> 0 \<le> attackDamage u
      \<and> (hp u \<le> 0 \<longrightarrow> unit_id u \<in> set (if hp ?tu \<le> 0 then deadUnitsToRemove d @ [unit_id ?tu] else deadUnitsToRemove d))"
    by blast
  moreover have "units (updUnit t (\<lambda>u. u\<lparr> hp := hp u - damage \<rparr>) d) = (units d)[t := ?tu]"
    and "units (updUnit t (\<lambda>u. u\<lparr> hp := hp u - damage \<rparr>) d) ! t = ?tu"
    and "deadUnitsToRemove (updUnit t (\<lambda>u. u\<lparr> hp := hp u - damage \<rparr>) d) = deadUnitsToRemove d"
    using True by (simp_all add: updUnit_def)
  ultimately show ?thesis
    unfolding deathsRecorded_def Let_def by (simp split: if_splits)
next
  case False
  then show ?thesis
    using assms(1) by (auto simp: deathsRecorded_def updUnit_def Let_def list_update_beyond)
qed

lemma deathsRecorded_applyCombatPair:
  assumes "deathsRecorded (draft r)" "0 \<le> snd (snd pr)"
  shows "deathsRecorded (draft (applyCombatPair r pr))"
proof -
  obtain a t damage where pr: "pr = (a, t, damage)" by (cases pr)
  define d2 where "d2 = (let d1 = updUnit t (\<lambda>u. u\<lparr> hp := hp u - damage \<rparr>) (draft r); tu = units d1 ! t
      in if hp tu \<le> 0 then d1\<lparr> deadUnitsToRemove := deadUnitsToRemove d1 @ [unit_id tu] \<rparr> else d1)"
  have d2: "deathsRecorded d2"
    unfolding d2_def using assms pr by (intro deathsRecorded_hit) simp_all
  have mv: "deathsRecorded (draft (moveAlong k t dir (r\<lparr> draft := d2 \<rparr>)))" for dir k
    using d2 deathsRecorded_core[of "draft (moveAlong k t dir (r\<lparr> draft := d2 \<rparr>))" d2] by simp
  have "draft (applyCombatPair r pr) = d2 \<or> (\<exists>dir k. draft (applyCombatPair r pr) = draft (moveAlong k t dir (r\<lparr> draft := d2 \<rparr>)))"
    unfolding pr d2_def by (auto simp: applyCombatPair_def Let_def)
  then show ?thesis using d2 mv by auto
qed

lemma combatPairs_applyCombatPair [simp]: "combatPairs (applyCombatPair r pr) = combatPairs r"
  by (cases pr) (simp add: applyCombatPair_def Let_def)

lemma deathsRecorded_applyCombat:
  assumes "deathsRecorded (draft r)" "damageOk r"
  shows "deathsRecorded (draft (applyCombat r))"
proof -
  have "deathsRecorded (draft (foldl applyCombatPair r ps))" if "\<forall>pr\<in>set ps. 0 \<le> snd (snd pr)" for ps
    using that assms(1) by (induction ps arbitrary: r) (simp_all add: deathsRecorded_applyCombatPair)
  then show ?thesis using assms(2) by (simp add: applyCombat_def damageOk_def)
qed

text \<open>Removal of the dead.\<close>

lemma core_clearDeadRefs [simp]: "core (clearDeadRefs dead u) = core u"
  by (simp add: clearDeadRefs_def Let_def split: option.splits)

lemma forgetDead_frame [simp]:
  "map core (units (forgetDead d dead)) = map core (units d)"
  "deadUnitsToRemove (forgetDead d dead) = deadUnitsToRemove d"
  by (simp_all add: forgetDead_def)

lemma foldl_forgetDead_frame [simp]:
  "map core (units (foldl forgetDead d ds)) = map core (units d)
   \<and> deadUnitsToRemove (foldl forgetDead d ds) = deadUnitsToRemove d"
  by (induction ds arbitrary: d) simp_all

lemma units_removeDeadUnits:
  "units (removeDeadUnits d) =
     (if length (deadUnitsToRemove d) > 0
      then filter (\<lambda>u. hp u > 0 \<and> unit_id u \<notin> set (deadUnitsToRemove d)) (units (foldl forgetDead d (deadUnitsToRemove d)))
      else units d)"
  by (simp add: removeDeadUnits_def Let_def split: option.splits)

lemma removeDeadUnits_survivors:
  assumes "deathsRecorded d"
  shows "healthy (units (removeDeadUnits d))"
    and "\<forall>u\<in>set (units d). hp u \<le> 0 \<longrightarrow> unit_id u \<notin> unit_id ` set (units (removeDeadUnits d))"
proof -
  let ?d1 = "foldl forgetDead d (deadUnitsToRemove d)"
  have c: "map core (units ?d1) = map core (units d)" by simp
  have dr: "deathsRecorded ?d1" using deathsRecorded_core[of ?d1 d] assms by simp
  show "healthy (units (removeDeadUnits d))"
  proof (cases "length (deadUnitsToRemove d) > 0")
    case True
    then show ?thesis using dr
      by (auto simp: units_removeDeadUnits healthy_def unitOk_def deathsRecorded_def)
  next
    case False
    then show ?thesis using assms
      by (auto simp: units_removeDeadUnits healthy_def unitOk_def deathsRecorded_def)
  qed
  show "\<forall>u\<in>set (units d). hp u \<le> 0 \<longrightarrow> unit_id u \<notin> unit_id ` set (units (removeDeadUnits d))"
  proof (intro ballI impI)
    fix u assume u: "u \<in> set (units d)" "hp u \<le> 0"
    then have dead: "unit_id u \<in> set (deadUnitsToRemove d)" using assms by (simp add: deathsRecorded_def)
    then have "length (deadUnitsToRemove d) > 0" by auto
    then show "unit_id u \<notin> unit_id ` set (units (removeDeadUnits d))"
      using dead by (auto simp: units_removeDeadUnits)
  qed
qed

text \<open>Attacker cleanup, bridges, win check.\<close>

lemma core_pruneAttackers [simp]: "core (pruneAttackers us u) = core u"
  by (simp add: pruneAttackers_def Let_def split: option.splits)

lemma core_cleanupAttackers [simp]:
  "map core (units (cleanupAttackers d)) = map core (units d)"
proof -
  have "map core (foldl (\<lambda>us i. us[i := pruneAttackers us (us ! i)]) us js) = map core us" for us js
    by (induction js arbitrary: us) (simp_all add: map_update_same)
  then show ?thesis by (simp add: cleanupAttackers_def)
qed

lemma units_updateBridgeAnimations [simp]: "units (updateBridgeAnimations d nowMs) = units d"
  by (simp add: updateBridgeAnimations_def Let_def)

lemma units_checkWinLoop [simp]: "units (checkWinLoop ids ps d) = units d"
  by (induction ps) (simp_all add: Let_def)

lemma units_winCheckStep [simp]: "units (winCheckStep nowMs d) = units d"
  by (simp add: winCheckStep_def checkWinConditions_def Let_def)

lemma units_tickPrepare [simp]: "units (tickPrepare d) = units d"
  by (simp add: tickPrepare_def Let_def)

lemma length_regenUnit [simp]: "length (units (regenUnit nowMs d i)) = length (units d)"
  by (simp add: regenUnit_def Let_def split: option.splits)

lemma length_regenPass [simp]: "length (units (regenPass nowMs hs d)) = length (units d)"
proof -
  have "length (units (foldl (regenUnit nowMs) d js)) = length (units d)" for js
    by (induction js arbitrary: d) simp_all
  then show ?thesis by (simp add: regenPass_def Let_def)
qed

lemma length_spawnFromQueen: "length (units (fst de)) \<le> length (units (fst (spawnFromQueen nowMs de qi)))"
  by (cases de) (simp add: spawnFromQueen_def Let_def split_beta)

lemma length_spawnPass: "length (units (fst de)) \<le> length (units (fst (spawnPass nowMs qs de)))"
  unfolding spawnPass_def
proof (induction qs arbitrary: de)
  case Nil
  show ?case by simp
next
  case (Cons q qs)
  from length_spawnFromQueen[of de nowMs q] Cons[of "spawnFromQueen nowMs de q"]
  show ?case by simp
qed

lemma movableUnitsOf_bound: "\<forall>i\<in>set (movableUnitsOf us). i < length us"
  by (simp add: movableUnitsOf_def)

lemma tickThroughCombat_stages:
  "tickThroughCombat dt nowMs pe =
     applyCombat (behaviorPass dt nowMs (movableUnitsOf (units (fst pe))) (beforeBehavior nowMs pe))"
  by (cases pe) (simp add: tickThroughCombat_def beforeBehavior_def Let_def split_beta)

lemma healthy_beforeBehavior:
  assumes "healthy (units (fst pe))"
  shows "healthy (units (draft (beforeBehavior nowMs pe)))"
    and "length (units (fst pe)) \<le> length (units (draft (beforeBehavior nowMs pe)))"
proof -
  let ?d2 = "regenPass nowMs (unitsNeedingHealingOf (units (fst pe))) (tickPrepare (fst pe))"
  have h2: "healthy (units ?d2)" using assms by (intro healthy_regenPass) simp
  then show "healthy (units (draft (beforeBehavior nowMs pe)))"
    using healthy_spawnPass[of "(?d2, snd pe)"] by (simp add: beforeBehavior_def Let_def)
  show "length (units (fst pe)) \<le> length (units (draft (beforeBehavior nowMs pe)))"
    using length_spawnPass[of "(?d2, snd pe)"] by (simp add: beforeBehavior_def Let_def)
qed

lemma deathsRecorded_tickThroughCombat:
  assumes "healthy (units (fst pe))"
  shows "deathsRecorded (draft (tickThroughCombat dt nowMs pe))"
proof -
  let ?r3 = "beforeBehavior nowMs pe"
  let ?ms = "movableUnitsOf (units (fst pe))"
  let ?r4 = "behaviorPass dt nowMs ?ms ?r3"
  have h3: "healthy (units (draft ?r3))" and l3: "length (units (fst pe)) \<le> length (units (draft ?r3))"
    using healthy_beforeBehavior[OF assms] by simp_all
  have dmg: "\<forall>u\<in>set (units (draft ?r3)). 0 \<le> attackDamage u"
    using h3 by (simp add: healthy_def unitOk_def)
  have dOk: "damageOk ?r3" by (simp add: damageOk_def beforeBehavior_def Let_def)
  have ms: "\<forall>i\<in>set ?ms. i < length (units (draft ?r3))"
    using movableUnitsOf_bound[of "units (fst pe)"] l3 by auto
  have d4: "damageOk ?r4" using dmg dOk ms by (rule damageOk_behaviorPass)
  have "healthy (units (draft ?r4))" using h3 healthy_core[of "units (draft ?r4)" "units (draft ?r3)"] by simp
  then have "deathsRecorded (draft ?r4)" by (rule deathsRecorded_healthy)
  then have "deathsRecorded (draft (applyCombat ?r4))" using d4 by (rule deathsRecorded_applyCombat)
  then show ?thesis by (simp add: tickThroughCombat_stages)
qed

lemma units_tickFinish:
  "map core (units (fst (tickFinish nowMs r))) = map core (units (removeDeadUnits (draft r)))"
  by (simp add: tickFinish_def Let_def)

lemma tick_keeps_healthy:
  assumes "healthy (units s)"
  shows "healthy (units (fst (tick dt nowMs (s, e))))"
proof (cases "\<not> matchStarted s \<or> isPaused s")
  case True
  then show ?thesis using assms by (simp add: tick_def)
next
  case False
  let ?r = "tickThroughCombat dt nowMs (s, e)"
  have "deathsRecorded (draft ?r)" using assms by (intro deathsRecorded_tickThroughCombat) simp
  then have "healthy (units (removeDeadUnits (draft ?r)))" by (rule removeDeadUnits_survivors(1))
  then have "healthy (units (fst (tickFinish nowMs ?r)))"
    using healthy_core[OF units_tickFinish] by simp
  then show ?thesis using False by (simp add: tick_def)
qed

lemma unit_id_via_core: "map unit_id us = map fst (map core us)"
  by (simp add: core_def comp_def)

lemma tick_removes_dead:
  assumes "healthy (units s)" "matchStarted s" "\<not> isPaused s"
    "u \<in> set (units (draft (tickThroughCombat dt nowMs (s, e))))" "hp u \<le> 0"
  shows "unit_id u \<notin> unit_id ` set (units (fst (tick dt nowMs (s, e))))"
proof -
  let ?r = "tickThroughCombat dt nowMs (s, e)"
  have "deathsRecorded (draft ?r)" using assms(1) by (intro deathsRecorded_tickThroughCombat) simp
  then have a: "unit_id u \<notin> unit_id ` set (units (removeDeadUnits (draft ?r)))"
    using removeDeadUnits_survivors(2) assms(4,5) by blast
  have "map unit_id (units (fst (tickFinish nowMs ?r))) = map unit_id (units (removeDeadUnits (draft ?r)))"
    unfolding unit_id_via_core units_tickFinish ..
  then have "set (map unit_id (units (fst (tickFinish nowMs ?r)))) = set (map unit_id (units (removeDeadUnits (draft ?r))))"
    by (rule arg_cong)
  then have "unit_id ` set (units (fst (tickFinish nowMs ?r))) = unit_id ` set (units (removeDeadUnits (draft ?r)))"
    by (simp only: set_map)
  moreover have "tick dt nowMs (s, e) = tickFinish nowMs ?r" using assms(2,3) by (simp add: tick_def)
  ultimately show ?thesis using a by simp
qed

text \<open>
  Claim C3. If every unit has 0 < hp, hp \<le> maxHp and a non-negative attack damage before
  a tick (as every unit made by the constructors has), then after the tick every unit
  remaining in the unit set has 0 < hp and hp \<le> maxHp (and a non-negative attack damage,
  so the property carries to the next tick); and in a running tick no unit whose hp is 0
  or below once the queued combat has been applied shares its id with a unit that remains
  when the tick completes.
\<close>

theorem tick_hp_invariant:
  assumes "\<forall>u\<in>set (units s). 0 < hp u \<and> hp u \<le> maxHp u \<and> 0 \<le> attackDamage u"
  shows "(\<forall>u\<in>set (units (fst (tick dt nowMs (s, e)))). 0 < hp u \<and> hp u \<le> maxHp u \<and> 0 \<le> attackDamage u)
       \<and> (matchStarted s \<and> \<not> isPaused s \<longrightarrow>
            (\<forall>u\<in>set (units (draft (tickThroughCombat dt nowMs (s, e)))).
               hp u \<le> 0 \<longrightarrow> unit_id u \<notin> unit_id ` set (units (fst (tick dt nowMs (s, e))))))"
proof -
  have h: "healthy (units s)" using assms by (simp add: healthy_def unitOk_def)
  from tick_keeps_healthy[OF h, of dt nowMs e] tick_removes_dead[OF h]
  show ?thesis by (auto simp: healthy_def unitOk_def)
qed

lemma unitOk_constructors:
  "unitOk (fst (createBase owner a pos rot e))" "unitOk (fst (createQueen owner a pos rot e))"
  "unitOk (fst (createKing owner a pos rot e))"
  by (simp_all add: createBase_def createQueen_def createKing_def baseStats_def Let_def split_beta
      unitOk_def hp_ANIMALS)

section \<open>Regeneration\<close>

text \<open>Regeneration.\<close>

lemma getNearbyUnits_cong:
  assumes "\<And>k. position (us' ! k) = position (us ! k)"
  shows "getNearbyUnits us' g p r = getNearbyUnits us g p r"
  by (simp add: getNearbyUnits_def assms)

lemma findNearbyQueens_cong:
  assumes "\<And>k. position (us' ! k) = position (us ! k)" "\<And>k. kind (us' ! k) = kind (us ! k)"
    "\<And>k. ownerId (us' ! k) = ownerId (us ! k)"
  shows "findNearbyQueens us' g i r = findNearbyQueens us g i r"
  by (simp add: findNearbyQueens_def assms getNearbyUnits_cong[of us' us, OF assms(1)])

lemma nth_update_field:
  assumes "f (v) = f (us ! j)"
  shows "f (us[j := v] ! k) = f (us ! k)"
proof (cases "j < length us")
  case True
  then show ?thesis using assms by (simp add: nth_list_update)
next
  case False
  then show ?thesis by (simp add: list_update_beyond)
qed

lemma findNearbyQueens_heal:
  "findNearbyQueens (us[j := (us ! j)\<lparr> hp := h \<rparr>]) g i r = findNearbyQueens us g i r"
proof (rule findNearbyQueens_cong)
  fix k
  show "position (us[j := (us ! j)\<lparr> hp := h \<rparr>] ! k) = position (us ! k)"
    by (rule nth_update_field[where f = position]) simp
  show "kind (us[j := (us ! j)\<lparr> hp := h \<rparr>] ! k) = kind (us ! k)"
    by (rule nth_update_field[where f = kind]) simp
  show "ownerId (us[j := (us ! j)\<lparr> hp := h \<rparr>] ! k) = ownerId (us ! k)"
    by (rule nth_update_field[where f = ownerId]) simp
qed

text \<open>Right after the grid is built, the queens the grid finds near a unit are the
  friendly queens within the radius.\<close>

lemma findNearbyQueens_built:
  assumes "0 < cellSize g0"
  shows "findNearbyQueens us (buildFromUnits us g0) i r \<noteq> [] \<longleftrightarrow>
     (\<exists>j<length us. kind (us ! j) = Queen \<and> ownerId (us ! j) = ownerId (us ! i)
        \<and> grid_distance3D (position (us ! i)) (position (us ! j)) \<le> r)"
proof -
  have "set (getNearbyUnits us (buildFromUnits us g0) (position (us ! i)) r)
      = set (bruteForceNearby us (position (us ! i)) r)"
    using getNearbyUnits_mset[OF assms] by (rule mset_eq_setD)
  then have "set (findNearbyQueens us (buildFromUnits us g0) i r) =
      {j. j < length us \<and> kind (us ! j) = Queen \<and> ownerId (us ! j) = ownerId (us ! i)
        \<and> grid_distance3D (position (us ! i)) (position (us ! j)) \<le> r}"
    by (auto simp: findNearbyQueens_def bruteForceNearby_def)
  moreover have "findNearbyQueens us (buildFromUnits us g0) i r \<noteq> [] \<longleftrightarrow>
      set (findNearbyQueens us (buildFromUnits us g0) i r) \<noteq> {}" by simp
  ultimately show ?thesis by auto
qed

lemma regenUnit_eq:
  "regenUnit nowMs d i =
     (if regenEligible nowMs d i
      then d\<lparr> units := (units d)[i := healed (units d ! i)],
              lastRegenAtMsByUnitId := (lastRegenAtMsByUnitId d)(unit_id (units d ! i) \<mapsto> nowMs) \<rparr>
      else d)"
  by (auto simp: regenUnit_def regenEligible_def healed_def Let_def REGEN_INTERVAL_MS_def
      REGEN_AMOUNT_def split: option.splits)

lemma regenUnit_frame [simp]:
  "spatialGrid (regenUnit nowMs d j) = spatialGrid d"
  "config (regenUnit nowMs d j) = config d"
  "length (units (regenUnit nowMs d j)) = length (units d)"
  "map unit_id (units (regenUnit nowMs d j)) = map unit_id (units d)"
  by (simp_all add: regenUnit_eq healed_def map_update_same)

lemma regenUnit_nth_other:
  "i \<noteq> j \<Longrightarrow> units (regenUnit nowMs d j) ! i = units d ! i"
  by (simp add: regenUnit_eq)

lemma foldl_regenUnit_nth_other:
  "i \<notin> set js \<Longrightarrow> units (foldl (regenUnit nowMs) d js) ! i = units d ! i"
  by (induction js arbitrary: d) (simp_all add: regenUnit_nth_other)

lemma regenEligible_after_other:
  assumes "i \<noteq> j" "i < length (units d)" "j < length (units d)" "distinct (map unit_id (units d))"
  shows "regenEligible nowMs (regenUnit nowMs d j) i = regenEligible nowMs d i"
proof -
  have ids: "unit_id (units d ! i) \<noteq> unit_id (units d ! j)"
    using assms by (metis distinct_conv_nth length_map nth_map)
  show ?thesis
    using assms(1) ids
    by (simp add: regenUnit_eq regenEligible_def healed_def findNearbyQueens_heal split: option.splits)
qed

lemma regenUnit_at:
  assumes "i < length (units d)"
  shows "units (regenUnit nowMs d i) ! i = (if regenEligible nowMs d i then healed (units d ! i) else units d ! i)"
    and "lastRegenAtMsByUnitId (regenUnit nowMs d i) (unit_id (units d ! i)) =
           (if regenEligible nowMs d i then Some nowMs else lastRegenAtMsByUnitId d (unit_id (units d ! i)))"
  using assms by (simp_all add: regenUnit_eq)

lemma regenUnit_stamp_other:
  assumes "unit_id (units d ! j) \<noteq> k"
  shows "lastRegenAtMsByUnitId (regenUnit nowMs d j) k = lastRegenAtMsByUnitId d k"
  using assms by (simp add: regenUnit_eq)

lemma unit_id_regenUnit:
  "i < length (units d) \<Longrightarrow> unit_id (units (regenUnit nowMs d j) ! i) = unit_id (units d ! i)"
  using regenUnit_frame(4)[of nowMs d j] by (metis length_map nth_map regenUnit_frame(3))

lemma foldl_regenUnit_effect:
  assumes "distinct js" "\<forall>j\<in>set js. j < length (units d)" "distinct (map unit_id (units d))"
    "i < length (units d)"
  shows "units (foldl (regenUnit nowMs) d js) ! i =
           (if i \<in> set js \<and> regenEligible nowMs d i then healed (units d ! i) else units d ! i)
       \<and> lastRegenAtMsByUnitId (foldl (regenUnit nowMs) d js) (unit_id (units d ! i)) =
           (if i \<in> set js \<and> regenEligible nowMs d i then Some nowMs
            else lastRegenAtMsByUnitId d (unit_id (units d ! i)))"
  using assms
proof (induction js arbitrary: d)
  case Nil
  then show ?case by simp
next
  case (Cons j js)
  let ?d1 = "regenUnit nowMs d j"
  have j: "j < length (units d)" and nj: "j \<notin> set js" using Cons.prems by simp_all
  have ih: "units (foldl (regenUnit nowMs) ?d1 js) ! i =
           (if i \<in> set js \<and> regenEligible nowMs ?d1 i then healed (units ?d1 ! i) else units ?d1 ! i)
       \<and> lastRegenAtMsByUnitId (foldl (regenUnit nowMs) ?d1 js) (unit_id (units ?d1 ! i)) =
           (if i \<in> set js \<and> regenEligible nowMs ?d1 i then Some nowMs
            else lastRegenAtMsByUnitId ?d1 (unit_id (units ?d1 ! i)))"
    using Cons.prems by (intro Cons.IH) simp_all
  have id1: "unit_id (units ?d1 ! i) = unit_id (units d ! i)"
    using Cons.prems(4) by (rule unit_id_regenUnit)
  show ?case
  proof (cases "i = j")
    case True
    then have "i \<notin> set js" using nj by simp
    then show ?thesis
      using ih id1 True regenUnit_at[OF j, of nowMs] by simp
  next
    case False
    have ids: "unit_id (units d ! j) \<noteq> unit_id (units d ! i)"
      using False j Cons.prems(3,4) by (metis distinct_conv_nth length_map nth_map)
    have e: "regenEligible nowMs ?d1 i = regenEligible nowMs d i"
      using False Cons.prems(4) j Cons.prems(3) by (rule regenEligible_after_other)
    have u: "units ?d1 ! i = units d ! i" using False by (rule regenUnit_nth_other)
    have l: "lastRegenAtMsByUnitId ?d1 (unit_id (units d ! i)) = lastRegenAtMsByUnitId d (unit_id (units d ! i))"
      using ids by (rule regenUnit_stamp_other)
    show ?thesis using ih False unfolding id1 e u l by simp
  qed
qed

lemma unitsNeedingHealingOf_props:
  "distinct (take n (unitsNeedingHealingOf us))"
  "\<forall>j\<in>set (take n (unitsNeedingHealingOf us)). j < length us"
proof -
  show "distinct (take n (unitsNeedingHealingOf us))"
    by (simp add: unitsNeedingHealingOf_def)
  have "set (take n (unitsNeedingHealingOf us)) \<subseteq> set (unitsNeedingHealingOf us)" by (rule set_take_subset)
  then show "\<forall>j\<in>set (take n (unitsNeedingHealingOf us)). j < length us"
    by (auto simp: unitsNeedingHealingOf_def)
qed

text \<open>The regeneration stage of a tick, for the unit at index \<open>i\<close>.\<close>

lemma regen_stage_effect:
  fixes prev :: Store and nowMs :: real and i :: nat
  assumes ids: "distinct (map unit_id (units prev))"
    and cs: "\<forall>g. spatialGrid prev = Some g \<longrightarrow> 0 < cellSize g"
    and i: "i < length (units prev)"
  defines "u \<equiv> units prev ! i"
  defines "d' \<equiv> regenPass nowMs (unitsNeedingHealingOf (units prev)) (tickPrepare prev)"
  defines "heals \<equiv> (\<not> regenThrottling (optimizations prev) \<or> (tickCounter prev + 1) mod 3 = 0)
      \<and> i \<in> set (take 30 (unitsNeedingHealingOf (units prev)))
      \<and> 0 < hp u
      \<and> nowMs - (case lastRegenAtMsByUnitId prev (unit_id u) of None \<Rightarrow> 0 | Some t \<Rightarrow> t) \<ge> 3000
      \<and> (\<exists>j<length (units prev). kind (units prev ! j) = Queen \<and> ownerId (units prev ! j) = ownerId u
            \<and> grid_distance3D (position u) (position (units prev ! j)) \<le> regenRadius (config prev))"
  shows "units d' ! i = (if heals then u\<lparr> hp := min (maxHp u) (hp u + 1) \<rparr> else u)
       \<and> lastRegenAtMsByUnitId d' (unit_id u) =
           (if heals then Some nowMs else lastRegenAtMsByUnitId prev (unit_id u))"
proof -
  let ?d = "tickPrepare prev"
  let ?js = "take 30 (unitsNeedingHealingOf (units prev))"
  obtain g0 where g0: "spatialGrid ?d = Some (buildFromUnits (units prev) g0)" "0 < cellSize g0"
  proof (cases "spatialGrid prev")
    case None
    have "0 < cellSize (newSpatialGrid 1000 50)" by (simp add: newSpatialGrid_def)
    with None that[of "newSpatialGrid 1000 50"] show ?thesis by (simp add: tickPrepare_def)
  next
    case (Some g)
    with cs that[of g] show ?thesis by (simp add: tickPrepare_def)
  qed
  have fr: "units ?d = units prev" "lastRegenAtMsByUnitId ?d = lastRegenAtMsByUnitId prev"
    "config ?d = config prev" "optimizations ?d = optimizations prev" "tickCounter ?d = tickCounter prev + 1"
    by (simp_all add: tickPrepare_def Let_def)
  have el: "regenEligible nowMs ?d i \<longleftrightarrow> 0 < hp u
      \<and> nowMs - (case lastRegenAtMsByUnitId prev (unit_id u) of None \<Rightarrow> 0 | Some t \<Rightarrow> t) \<ge> 3000
      \<and> (\<exists>j<length (units prev). kind (units prev ! j) = Queen \<and> ownerId (units prev ! j) = ownerId u
            \<and> grid_distance3D (position u) (position (units prev ! j)) \<le> regenRadius (config prev))"
    unfolding regenEligible_def fr g0(1) u_def
    by (simp add: findNearbyQueens_built[OF g0(2)])
  have eff: "units (foldl (regenUnit nowMs) ?d ?js) ! i =
           (if i \<in> set ?js \<and> regenEligible nowMs ?d i then healed (units ?d ! i) else units ?d ! i)
       \<and> lastRegenAtMsByUnitId (foldl (regenUnit nowMs) ?d ?js) (unit_id (units ?d ! i)) =
           (if i \<in> set ?js \<and> regenEligible nowMs ?d i then Some nowMs
            else lastRegenAtMsByUnitId ?d (unit_id (units ?d ! i)))"
    using unitsNeedingHealingOf_props[of 30 "units prev"] ids i
    by (intro foldl_regenUnit_effect) (simp_all add: fr)
  have h: "heals \<longleftrightarrow> (\<not> regenThrottling (optimizations prev) \<or> (tickCounter prev + 1) mod 3 = 0)
      \<and> i \<in> set ?js \<and> regenEligible nowMs ?d i"
    unfolding heals_def el by simp
  show ?thesis
  proof (cases "\<not> regenThrottling (optimizations prev) \<or> (tickCounter prev + 1) mod 3 = 0")
    case True
    then have "d' = foldl (regenUnit nowMs) ?d ?js"
      by (simp add: d'_def regenPass_def Let_def fr REGEN_CHECK_FREQUENCY_def)
    moreover have "heals \<longleftrightarrow> i \<in> set ?js \<and> regenEligible nowMs ?d i" using h True by simp
    ultimately show ?thesis
      using eff unfolding fr u_def by (simp add: healed_def)
  next
    case False
    then have "d' = ?d" by (simp add: d'_def regenPass_def Let_def fr REGEN_CHECK_FREQUENCY_def)
    moreover have "\<not> heals" using h False by simp
    ultimately show ?thesis by (simp add: fr u_def)
  qed
qed



lemma take_filter_prefix:
  assumes "\<forall>i<n. P i" "n \<le> m"
  shows "take n (filter P [0..<m]) = [0..<n]"
proof -
  have "[0..<m] = [0..<n] @ [n..<m]" using assms(2) by (metis le_add_diff_inverse upt_add_eq_append zero_le)
  moreover have "filter P [0..<n] = [0..<n]" using assms(1) by (simp add: filter_id_conv)
  ultimately show ?thesis by simp
qed

lemma crowd_nth:
  "k < 30 \<Longrightarrow> units crowdExample ! k = wounded (replicate (Suc k) CHR ''f'') farAway"
  "units crowdExample ! 30 = wounded ''a-unit'' origin"
  "units crowdExample ! 31 = fst (createQueen ''A'' Bee origin 0 (envWithId ''a-queen''))"
  "length (units crowdExample) = 32"
  by (simp_all add: crowdExample_def nth_append)

lemma wounded_fields:
  "hp (wounded uid pos) = 10" "maxHp (wounded uid pos) = 60" "position (wounded uid pos) = pos"
  "ownerId (wounded uid pos) = ''A''" "kind (wounded uid pos) = Unit" "unit_id (wounded uid pos) = uid"
  by (simp_all add: wounded_def create_defs)

lemma sqrt_gt_iff_sq:
  fixes r s :: real
  assumes "0 \<le> r"
  shows "r < sqrt s \<longleftrightarrow> r * r < s"
proof -
  have r: "sqrt (r * r) = r" using assms by simp
  show ?thesis using real_sqrt_less_iff[of "r * r" s] r by simp
qed


section \<open>Combat: firing, queueing and application\<close>

lemma hp_via_core: "map hp us = map (\<lambda>c. fst (snd (snd (snd (snd c))))) (map core us)"
  by (simp add: core_def comp_def)

lemma hp_combatExecution:
  "map hp (units (draft (combatExecution dt nowMs i tgt r))) = map hp (units (draft r))"
  unfolding hp_via_core core_combatExecution ..

lemma hp_behaviorPass:
  "map hp (units (draft (behaviorPass dt nowMs ms r))) = map hp (units (draft r))"
  unfolding hp_via_core core_behaviorPass ..

lemma applyCombatPair_hp:
  assumes "t < length (units (draft r))"
  shows "hp (units (draft (applyCombatPair r (a, t, damage))) ! t) = hp (units (draft r) ! t) - damage"
proof -
  let ?d1 = "updUnit t (\<lambda>u. u\<lparr> hp := hp u - damage \<rparr>) (draft r)"
  have h1: "hp (units ?d1 ! t) = hp (units (draft r) ! t) - damage" and l1: "length (units ?d1) = length (units (draft r))"
    using assms by (simp_all add: updUnit_def)
  have mv: "hp (units (draft (moveAlong k t dir r')) ! t) = hp (units (draft r') ! t)"
    if "t < length (units (draft r'))" for k dir r'
  proof -
    have "core (units (draft (moveAlong k t dir r')) ! t) = core (units (draft r') ! t)"
      using core_nth[OF core_moveAlong that] .
    then show ?thesis by (simp add: core_def)
  qed
  show ?thesis
    using h1 l1 assms by (simp add: applyCombatPair_def Let_def mv)
qed

lemma applyCombatPair_position:
  fixes r :: TickRun and a t :: nat and damage :: real
  assumes t: "t < length (units (draft r))"
  defines "tu \<equiv> units (draft r) ! t"
  defines "us2 \<equiv> (units (draft r))[t := tu\<lparr> hp := hp tu - damage \<rparr>]"
  defines "dir \<equiv> normalize3D (subtract3D (position tu) (position (us2 ! a)))"
  shows "position (units (draft (applyCombatPair r (a, t, damage))) ! t) =
     (if hp tu - damage > 0 \<and> (x dir \<noteq> 0 \<or> z dir \<noteq> 0)
      then fst (checkCollision
                 \<lparr> x = x (position tu) + x dir * 0.8, y = y (position tu), z = z (position tu) + z dir * 0.8 \<rparr>
                 (us2 ! t) us2 2.5 (selectedUnitIds (draft r)) (localPlayerId (draft r))
                 (unitOrders (draft r)) (env r))
      else position tu)"
  using t unfolding tu_def us2_def dir_def
  by (simp add: applyCombatPair_def Let_def moveAlong_def updUnit_def split_beta)



section \<open>A tick with healing, a kill and a removal\<close>

lemma fighterA_fields [simp]:
  "unit_id fighterA = ''a-unit''" "ownerId fighterA = ''A''" "kind fighterA = Unit"
  "position fighterA = origin" "hp fighterA = 59.5" "maxHp fighterA = 60" "attackDamage fighterA = 10"
  "attackCooldownMs fighterA = 1500" "lastAttackAtMs fighterA = 0"
  "lastCombatTargetId fighterA = None" "lastCombatEngagementMs fighterA = None"
  "unitState fighterA = None" "currentAttackers fighterA = None" "priorityAttacker fighterA = None"
  by (simp_all add: fighterA_def create_defs)

lemma fighterB_fields [simp]:
  "unit_id fighterB = ''b-unit''" "ownerId fighterB = ''B''" "kind fighterB = Unit"
  "position fighterB = \<lparr> x = 3, y = 0, z = 0 \<rparr>" "hp fighterB = 5" "maxHp fighterB = 100"
  "attackDamage fighterB = 16"
  "attackCooldownMs fighterB = 1500" "lastAttackAtMs fighterB = 0"
  "lastCombatTargetId fighterB = None" "lastCombatEngagementMs fighterB = None"
  "unitState fighterB = None" "currentAttackers fighterB = None" "priorityAttacker fighterB = None"
  by (simp_all add: fighterB_def create_defs)

lemma fighterQ_fields [simp]:
  "unit_id fighterQ = ''a-queen''" "ownerId fighterQ = ''A''" "kind fighterQ = Queen"
  "position fighterQ = \<lparr> x = - 8, y = 0, z = 0 \<rparr>" "hp fighterQ = 120" "maxHp fighterQ = 120"
  "attackDamage fighterQ = 10"
  "attackCooldownMs fighterQ = 1500" "lastAttackAtMs fighterQ = 0"
  "lastCombatTargetId fighterQ = None" "lastCombatEngagementMs fighterQ = None"
  "unitState fighterQ = None" "currentAttackers fighterQ = None" "priorityAttacker fighterQ = None"
  by (simp_all add: fighterQ_def create_defs)

lemmas grid_defs = getNearbyUnits_def buildFromUnits_def addUnit_def getGridCoords_def newSpatialGrid_def
  clear_def cellUnits_def grid_distance3D_def

lemma fight_draft:
  "units fightExample = [fighterA, fighterB, fighterQ]"
  "spatialGrid (tickPrepare fightExample) =
     Some (buildFromUnits [fighterA, fighterB, fighterQ] (newSpatialGrid 1000 50))"
  "players (tickPrepare fightExample) = twoPlayers"
  "unitOrders (tickPrepare fightExample) = Map.empty"
  "queenPatrols (tickPrepare fightExample) = Map.empty"
  "aiThinkingOffset (tickPrepare fightExample) = Map.empty"
  "targetCache (tickPrepare fightExample) = Map.empty"
  "lastRegenAtMsByUnitId (tickPrepare fightExample) = Map.empty"
  "lastSpawnAtMsByQueenId (tickPrepare fightExample) = Map.empty"
  "config (tickPrepare fightExample) = defaultConfig"
  "tickCounter (tickPrepare fightExample) = 3"
  "aiThrottling (optimizations (tickPrepare fightExample))"
  "regenThrottling (optimizations (tickPrepare fightExample))"
  "deadUnitsToRemove (tickPrepare fightExample) = []"
  by (simp_all add: tickPrepare_def Let_def fightExample_def initialStore_def)

lemma fight_cells:
  assumes "position a = \<lparr> x = 0, y = 0, z = 0 \<rparr>" "position b = \<lparr> x = 3, y = 0, z = 0 \<rparr>"
    "position q = \<lparr> x = - 8, y = 0, z = 0 \<rparr>"
  shows "getNearbyUnits [a, b, q] (buildFromUnits [fighterA, fighterB, fighterQ] (newSpatialGrid 1000 50)) \<lparr> x = 0, y = 0, z = 0 \<rparr> 8 = [2, 0, 1]"
    and "getNearbyUnits [a, b, q] (buildFromUnits [fighterA, fighterB, fighterQ] (newSpatialGrid 1000 50)) \<lparr> x = 3, y = 0, z = 0 \<rparr> 8 = [0, 1]"
    and "getNearbyUnits [a, b, q] (buildFromUnits [fighterA, fighterB, fighterQ] (newSpatialGrid 1000 50)) \<lparr> x = 0, y = 0, z = 0 \<rparr> 10 = [2, 0, 1]"
    and "getNearbyUnits [a, b, q] (buildFromUnits [fighterA, fighterB, fighterQ] (newSpatialGrid 1000 50)) \<lparr> x = - 8, y = 0, z = 0 \<rparr> 10 = [2, 0]"
proof -
  have c: "\<lceil>(1::real) / 5\<rceil> = 1" "\<lceil>(4::real) / 25\<rceil> = 1" by (simp_all add: ceiling_eq_iff)
  have r: "[- 1 .. 1 :: int] = [- 1, 0, 1]" by (simp add: upto.simps)
  have f: "\<lfloor>(246::real) / 25\<rfloor> = 9" "\<lfloor>(503::real) / 50\<rfloor> = 10" by (simp_all add: floor_eq_iff)
  show "getNearbyUnits [a, b, q] (buildFromUnits [fighterA, fighterB, fighterQ] (newSpatialGrid 1000 50)) \<lparr> x = 0, y = 0, z = 0 \<rparr> 8 = [2, 0, 1]"
    by (simp add: grid_defs assms origin_def Let_def upt_rec c r f)
  show "getNearbyUnits [a, b, q] (buildFromUnits [fighterA, fighterB, fighterQ] (newSpatialGrid 1000 50)) \<lparr> x = 3, y = 0, z = 0 \<rparr> 8 = [0, 1]"
    by (simp add: grid_defs assms origin_def Let_def upt_rec c r f)
  show "getNearbyUnits [a, b, q] (buildFromUnits [fighterA, fighterB, fighterQ] (newSpatialGrid 1000 50)) \<lparr> x = 0, y = 0, z = 0 \<rparr> 10 = [2, 0, 1]"
    by (simp add: grid_defs assms origin_def Let_def upt_rec c r f)
  show "getNearbyUnits [a, b, q] (buildFromUnits [fighterA, fighterB, fighterQ] (newSpatialGrid 1000 50)) \<lparr> x = - 8, y = 0, z = 0 \<rparr> 10 = [2, 0]"
    by (simp add: grid_defs assms origin_def Let_def upt_rec c r f)
qed

lemma fight_regen:
  "regenPass 5000 (unitsNeedingHealingOf (units fightExample)) (tickPrepare fightExample) = draft fightRun"
proof -
  have sel: "unitsNeedingHealingOf (units fightExample) = [0, 1]"
    by (simp add: unitsNeedingHealingOf_def fight_draft upt_rec)
  show ?thesis
    unfolding sel
    by (simp add: regenPass_def REGEN_CHECK_FREQUENCY_def fight_draft regenUnit_def Let_def
        REGEN_INTERVAL_MS_def REGEN_AMOUNT_def findNearbyQueens_def fight_cells defaultConfig_def
        grid_distance3D_def origin_def fightRun_def)
qed

lemma fight_before:
  "beforeBehavior 5000 (fightExample, envWithId ''n'') = fightRun"
proof -
  have q: "queensOf (units fightExample) = [2]"
    by (simp add: queensOf_def fight_draft upt_rec)
  have d: "draft fightRun = (tickPrepare fightExample)\<lparr> units := [fighterA\<lparr> hp := 60 \<rparr>, fighterB, fighterQ],
                    lastRegenAtMsByUnitId := [''a-unit'' \<mapsto> 5000] \<rparr>"
    by (simp add: fightRun_def)
  have "spawnPass 5000 [2] (draft fightRun, envWithId ''n'') = (draft fightRun, envWithId ''n'')"
    unfolding d by (simp add: spawnPass_def spawnFromQueen_def Let_def fight_draft defaultConfig_def)
  then show ?thesis
    by (simp add: beforeBehavior_def Let_def q fight_regen) (simp add: fightRun_def)
qed

lemmas behave_defs = behaviorPass_def behaveUnit_def decideUnit_def Let_def split_beta Math_random_def
  twoPlayers_def updUnit_def playerIdleBranch_def closest_def findEnemiesInRange_def
  combatExecution_def fireAttack_def aiCachedBranch_def recentTarget_def focusTarget_def
  distanceSquared3D_def grid_distance3D_def origin_def

lemma fight_pairs:
  "combatPairs (behaviorPass (1 / 60) 5000 [0, 1, 2] fightRun) = [(0, 1, 10)]"
  by (simp add: behave_defs fightRun_def fight_draft fight_cells)

lemma fight_no_dead_yet:
  "deadUnitsToRemove (draft (behaviorPass (1 / 60) 5000 [0, 1, 2] fightRun)) = []"
  by (simp add: behave_defs fightRun_def fight_draft fight_cells)

lemma applyCombatPair_lethal:
  assumes "t < length (units (draft r))" "hp (units (draft r) ! t) - damage \<le> 0"
  shows "draft (applyCombatPair r (a, t, damage)) =
     (updUnit t (\<lambda>u. u\<lparr> hp := hp u - damage \<rparr>) (draft r))
       \<lparr> deadUnitsToRemove := deadUnitsToRemove (draft r) @ [unit_id (units (draft r) ! t)] \<rparr>"
  using assms by (simp add: applyCombatPair_def Let_def updUnit_def)

lemma core_removeDeadUnits:
  "map core (units (removeDeadUnits d)) =
     (if length (deadUnitsToRemove d) > 0
      then filter (\<lambda>c. fst (snd (snd (snd (snd c)))) > 0 \<and> fst c \<notin> set (deadUnitsToRemove d))
             (map core (units d))
      else map core (units d))"
proof -
  have "map core (filter (\<lambda>u. hp u > 0 \<and> unit_id u \<notin> S) us) =
      filter (\<lambda>c. fst (snd (snd (snd (snd c)))) > 0 \<and> fst c \<notin> S) (map core us)" for S us
    by (simp add: filter_map comp_def core_def)
  then show ?thesis by (simp add: units_removeDeadUnits)
qed

lemma fight_after_combat:
  "map core (units (draft (tickThroughCombat (1 / 60) 5000 (fightExample, envWithId ''n''))))
     = [core (fighterA\<lparr> hp := 60 \<rparr>), core (fighterB\<lparr> hp := - 5 \<rparr>), core fighterQ]"
  "deadUnitsToRemove (draft (tickThroughCombat (1 / 60) 5000 (fightExample, envWithId ''n''))) = [''b-unit'']"
proof -
  let ?rB = "behaviorPass (1 / 60) 5000 [0, 1, 2] fightRun"
  have mv: "movableUnitsOf (units fightExample) = [0, 1, 2]"
    by (simp add: movableUnitsOf_def fight_draft upt_rec)
  have ttc: "tickThroughCombat (1 / 60) 5000 (fightExample, envWithId ''n'') = applyCombatPair ?rB (0, 1, 10)"
    using fight_pairs by (simp add: tickThroughCombat_stages fight_before mv applyCombat_def)
  have cB: "map core (units (draft ?rB)) = [core (fighterA\<lparr> hp := 60 \<rparr>), core fighterB, core fighterQ]"
    by (simp add: fightRun_def)
  have "length (units (draft ?rB)) = length (units (draft fightRun))"
    by (rule map_eq_imp_length_eq[OF core_behaviorPass])
  then have len: "1 < length (units (draft ?rB))" by (simp add: fightRun_def)
  have "core (units (draft ?rB) ! 1) = core (units (draft fightRun) ! 1)"
    by (rule core_nth[OF core_behaviorPass]) (simp add: fightRun_def)
  then have c1: "core (units (draft ?rB) ! 1) = core fighterB"
    by (simp add: fightRun_def)
  then have f1: "hp (units (draft ?rB) ! 1) = 5" "unit_id (units (draft ?rB) ! 1) = ''b-unit''"
    by (simp_all add: core_def)
  have post: "draft (applyCombatPair ?rB (0, 1, 10)) =
     (updUnit 1 (\<lambda>u. u\<lparr> hp := hp u - 10 \<rparr>) (draft ?rB))\<lparr> deadUnitsToRemove := [''b-unit''] \<rparr>"
    using applyCombatPair_lethal[OF len, of 10 0] f1 fight_no_dead_yet by simp
  have "map core (units (draft (applyCombatPair ?rB (0, 1, 10)))) =
      (map core (units (draft ?rB)))[1 := core ((units (draft ?rB) ! 1)\<lparr> hp := hp (units (draft ?rB) ! 1) - 10 \<rparr>)]"
    unfolding post by (simp add: updUnit_def map_update)
  also have "\<dots> = [core (fighterA\<lparr> hp := 60 \<rparr>), core (fighterB\<lparr> hp := - 5 \<rparr>), core fighterQ]"
    using c1 f1 unfolding cB by (simp add: core_def)
  finally show "map core (units (draft (tickThroughCombat (1 / 60) 5000 (fightExample, envWithId ''n''))))
     = [core (fighterA\<lparr> hp := 60 \<rparr>), core (fighterB\<lparr> hp := - 5 \<rparr>), core fighterQ]"
    unfolding ttc .
  show "deadUnitsToRemove (draft (tickThroughCombat (1 / 60) 5000 (fightExample, envWithId ''n''))) = [''b-unit'']"
    unfolding ttc post by (simp add: updUnit_def)
qed

lemma fight_after_tick:
  "map core (units (fst (tick (1 / 60) 5000 (fightExample, envWithId ''n''))))
     = [core (fighterA\<lparr> hp := 60 \<rparr>), core fighterQ]"
proof -
  let ?r = "tickThroughCombat (1 / 60) 5000 (fightExample, envWithId ''n'')"
  have t: "tick (1 / 60) 5000 (fightExample, envWithId ''n'') = tickFinish 5000 ?r"
    by (simp add: tick_def fightExample_def initialStore_def)
  have "map core (units (removeDeadUnits (draft ?r))) = [core (fighterA\<lparr> hp := 60 \<rparr>), core fighterQ]"
    unfolding core_removeDeadUnits fight_after_combat by (simp add: core_def)
  then show ?thesis unfolding t units_tickFinish .
qed

text \<open>A tick of the hit-point invariant at work: the wounded Bee next to its Queen is healed
  from 59.5 to its maximum of 60 and no further, it brings the Owl from 5 to -5, and the Owl is
  gone from the unit array when the tick completes.\<close>

theorem tick_hp_invariant_witness:
  "list_all (\<lambda>u. 0 < hp u \<and> hp u \<le> maxHp u \<and> 0 \<le> attackDamage u) (units fightExample)
   \<and> map unit_id (units fightExample) = [''a-unit'', ''b-unit'', ''a-queen'']
   \<and> map hp (units fightExample) = [59.5, 5, 120]
   \<and> map maxHp (units fightExample) = [60, 100, 120]
   \<and> map unit_id (units (draft (tickThroughCombat (1 / 60) 5000 (fightExample, envWithId ''n''))))
        = [''a-unit'', ''b-unit'', ''a-queen'']
   \<and> map hp (units (draft (tickThroughCombat (1 / 60) 5000 (fightExample, envWithId ''n'')))) = [60, - 5, 120]
   \<and> ''b-unit'' \<notin> unit_id ` set (units (fst (tick (1 / 60) 5000 (fightExample, envWithId ''n''))))
   \<and> map unit_id (units (fst (tick (1 / 60) 5000 (fightExample, envWithId ''n'')))) = [''a-unit'', ''a-queen'']
   \<and> map hp (units (fst (tick (1 / 60) 5000 (fightExample, envWithId ''n'')))) = [60, 120]
   \<and> list_all (\<lambda>u. 0 < hp u \<and> hp u \<le> maxHp u \<and> 0 \<le> attackDamage u)
        (units (fst (tick (1 / 60) 5000 (fightExample, envWithId ''n''))))"
proof -
  let ?r = "tickThroughCombat (1 / 60) 5000 (fightExample, envWithId ''n'')"
  have h: "\<forall>u\<in>set (units fightExample). 0 < hp u \<and> hp u \<le> maxHp u \<and> 0 \<le> attackDamage u"
    by (simp add: fight_draft)
  have run: "matchStarted fightExample" "\<not> isPaused fightExample"
    by (simp_all add: fightExample_def initialStore_def)
  have ids: "map unit_id (units (draft ?r)) = [''a-unit'', ''b-unit'', ''a-queen'']"
    and hps: "map hp (units (draft ?r)) = [60, - 5, 120]"
    unfolding unit_id_via_core hp_via_core fight_after_combat(1) by (simp_all add: core_def)
  have "length (map hp (units (draft ?r))) = 3" unfolding hps by simp
  then have len: "length (units (draft ?r)) = 3" by simp
  have u1: "units (draft ?r) ! 1 \<in> set (units (draft ?r))" using len by simp
  have "map hp (units (draft ?r)) ! 1 = - 5" "map unit_id (units (draft ?r)) ! 1 = ''b-unit''"
    unfolding hps ids by simp_all
  then have hp1: "hp (units (draft ?r) ! 1) = - 5" "unit_id (units (draft ?r) ! 1) = ''b-unit''"
    using len by simp_all
  have after: "map unit_id (units (fst (tick (1 / 60) 5000 (fightExample, envWithId ''n'')))) = [''a-unit'', ''a-queen'']"
    "map hp (units (fst (tick (1 / 60) 5000 (fightExample, envWithId ''n'')))) = [60, 120]"
    unfolding unit_id_via_core hp_via_core fight_after_tick by (simp_all add: core_def)
  from tick_hp_invariant[OF h, of "1 / 60" 5000 "envWithId ''n''"] run u1 hp1 h ids hps after
  show ?thesis by (auto simp: list_all_iff fight_draft)
qed

section \<open>The spatial grid in double precision\<close>

lemma halvings_eq:
  "2 ^ k \<le> a \<Longrightarrow> a < 2 ^ Suc k \<Longrightarrow> k \<le> n \<Longrightarrow> halvings n a = int k"
proof (induction n arbitrary: a k)
  case 0
  then show ?case by simp
next
  case (Suc n)
  show ?case
  proof (cases k)
    case 0
    with Suc.prems show ?thesis by simp
  next
    case (Suc j)
    have "(1::real) \<le> 2 ^ j" by simp
    then have "(2::real) \<le> 2 ^ k" unfolding Suc by simp
    with Suc.prems(1) have n2: "\<not> a < 2" by linarith
    have b: "2 ^ j \<le> a / 2" "a / 2 < 2 ^ Suc j" "j \<le> n"
      using Suc.prems unfolding Suc by simp_all
    from Suc.IH[OF b] n2 Suc show ?thesis by simp
  qed
qed

lemma doublings_eq:
  "1 \<le> a * 2 ^ k \<Longrightarrow> a * 2 ^ k < 2 \<Longrightarrow> k \<le> n \<Longrightarrow> doublings n a = - int k"
proof (induction n arbitrary: a k)
  case 0
  then show ?case by simp
next
  case (Suc n)
  show ?case
  proof (cases k)
    case 0
    with Suc.prems show ?thesis by simp
  next
    case (Suc j)
    have b: "1 \<le> (a * 2) * 2 ^ j" "(a * 2) * 2 ^ j < 2" "j \<le> n"
      using Suc.prems unfolding Suc by (simp_all add: mult.assoc)
    have pos: "0 < a"
    proof (rule ccontr)
      assume "\<not> 0 < a"
      then have "a * 2 ^ k \<le> 0" by (simp add: mult_le_0_iff)
      with Suc.prems(1) show False by linarith
    qed
    have "(1::real) \<le> 2 ^ j" by simp
    then have "a * 1 \<le> a * 2 ^ j" using pos by (intro mult_left_mono) simp_all
    then have "a * 2 \<le> (a * 2) * 2 ^ j" by simp
    with b(2) have lt: "\<not> 1 \<le> a" by linarith
    from Suc.IH[OF b] lt Suc show ?thesis by simp
  qed
qed

lemma binade_ge1:
  assumes "2 ^ k \<le> a" "a < 2 ^ Suc k" "k \<le> 1023"
  shows "binade a = int k"
proof -
  have "(1::real) \<le> 2 ^ k" by simp
  with assms(1) have "1 \<le> a" by linarith
  then have "binade a = halvings 1023 a" by (simp only: binade_def if_True)
  also have "\<dots> = int k" using assms by (rule halvings_eq)
  finally show ?thesis .
qed

lemma binade_lt1:
  assumes "1 \<le> a * 2 ^ k" "a * 2 ^ k < 2" "k \<le> 1022" "0 < k"
  shows "binade a = - int k"
proof -
  have pos: "0 < a"
  proof (rule ccontr)
    assume "\<not> 0 < a"
    then have "a * 2 ^ k \<le> 0" by (simp add: mult_le_0_iff)
    with assms(1) show False by linarith
  qed
  obtain j where k: "k = Suc j" using assms(4) by (cases k) simp_all
  have "(1::real) \<le> 2 ^ j" by simp
  then have "a * 1 \<le> a * 2 ^ j" using pos by (intro mult_left_mono) simp_all
  then have "a * 2 \<le> a * 2 ^ k" unfolding k by simp
  with assms(2) have "\<not> 1 \<le> a" by linarith
  then have "binade a = doublings 1022 a" by (simp only: binade_def if_False)
  also have "\<dots> = - int k" using assms(1,2,3) by (rule doublings_eq)
  finally show ?thesis .
qed

lemma roundHalfEven_near:
  assumes "\<bar>r - of_int n\<bar> < 1 / 2"
  shows "roundHalfEven r = n"
proof (cases "of_int n \<le> r")
  case True
  have "\<lfloor>r\<rfloor> = n" using assms True by (intro floor_unique) linarith+
  then show ?thesis using assms True by (simp add: roundHalfEven_def Let_def)
next
  case False
  have e: "real_of_int (n - 1) = of_int n - 1" by simp
  have "of_int (n - 1) \<le> r" "r < of_int (n - 1) + 1" unfolding e using assms False by linarith+
  then have "\<lfloor>r\<rfloor> = n - 1" by (rule floor_unique)
  then show ?thesis using assms False by (simp add: roundHalfEven_def Let_def)
qed

lemma binary64_near:
  assumes "v \<noteq> 0" "ulp \<bar>v\<bar> = q" "\<bar>v / q - of_int n\<bar> < 1 / 2"
  shows "binary64 v = of_int n * q"
  using assms by (simp add: binary64_def roundHalfEven_near)

lemma ulp_eq:
  "binade a = int k \<Longrightarrow> 52 \<le> k \<Longrightarrow> ulp a = 2 ^ (k - 52)"
  "binade a = int k \<Longrightarrow> k < 52 \<Longrightarrow> ulp a = 1 / 2 ^ (52 - k)"
  "binade a = - int k \<Longrightarrow> ulp a = 1 / 2 ^ (52 + k)"
proof -
  show "binade a = int k \<Longrightarrow> 52 \<le> k \<Longrightarrow> ulp a = 2 ^ (k - 52)"
    by (simp add: ulp_def Let_def nat_diff_distrib')
  show "binade a = int k \<Longrightarrow> k < 52 \<Longrightarrow> ulp a = 1 / 2 ^ (52 - k)"
    by (simp add: ulp_def Let_def nat_diff_distrib')
  show "binade a = - int k \<Longrightarrow> ulp a = 1 / 2 ^ (52 + k)"
    by (cases k) (simp_all add: ulp_def Let_def nat_add_distrib)
qed

lemma binary64_at:
  assumes "2 ^ k \<le> \<bar>v\<bar>" "\<bar>v\<bar> < 2 ^ Suc k" "k < 52" "\<bar>v * 2 ^ (52 - k) - of_int n\<bar> < 1 / 2"
  shows "binary64 v = of_int n / 2 ^ (52 - k)"
proof -
  have b: "binade \<bar>v\<bar> = int k" using assms(1,2,3) by (intro binade_ge1) simp_all
  have q: "ulp \<bar>v\<bar> = 1 / 2 ^ (52 - k)" using b assms(3) by (rule ulp_eq(2))
  have "(1::real) \<le> 2 ^ k" by simp
  with assms(1) have "1 \<le> \<bar>v\<bar>" by linarith
  then have nz: "v \<noteq> 0" by auto
  have "\<bar>v / (1 / 2 ^ (52 - k)) - of_int n\<bar> < 1 / 2" using assms(4) by simp
  from binary64_near[OF nz q this] show ?thesis by simp
qed

lemma binary64_values:
  "binary64 1000 = 1000" "binary64 500 = 500" "binary64 11 = 11" "binary64 10 = 10" "binary64 1 = 1"
  "binary64 (550 - 7 / 2 ^ 47) = 550"
  "binary64 (500 - 5 / 2 ^ 47) = 500 - 1 / 2 ^ 44"
  "binary64 ((500 - 1 / 2 ^ 44) / 50) = 10 - 1 / 2 ^ 49"
proof -
  show "binary64 1000 = 1000"
    using binary64_at[of 9 1000 "1000 * 2 ^ 43"] by simp
  show "binary64 500 = 500"
    using binary64_at[of 8 500 "500 * 2 ^ 44"] by simp
  show "binary64 11 = 11"
    using binary64_at[of 3 11 "11 * 2 ^ 49"] by simp
  show "binary64 10 = 10"
    using binary64_at[of 3 10 "10 * 2 ^ 49"] by simp
  show "binary64 1 = 1"
    using binary64_at[of 0 1 "2 ^ 52"] by simp
  show "binary64 (550 - 7 / 2 ^ 47) = 550"
    using binary64_at[of 9 "550 - 7 / 2 ^ 47" "550 * 2 ^ 43"] by simp
  show "binary64 (500 - 5 / 2 ^ 47) = 500 - 1 / 2 ^ 44"
    using binary64_at[of 8 "500 - 5 / 2 ^ 47" "500 * 2 ^ 44 - 1"] by simp
  show "binary64 ((500 - 1 / 2 ^ 44) / 50) = 10 - 1 / 2 ^ 49"
    using binary64_at[of 3 "(500 - 1 / 2 ^ 44) / 50" "10 * 2 ^ 49 - 1"] by simp
qed

lemma binary64_zero [simp]: "binary64 0 = 0"
  by (simp add: binary64_def)

lemma binary64_at_small:
  assumes "1 \<le> \<bar>v\<bar> * 2 ^ k" "\<bar>v\<bar> * 2 ^ k < 2" "k \<le> 1022" "0 < k" "\<bar>v * 2 ^ (52 + k) - of_int n\<bar> < 1 / 2"
  shows "binary64 v = of_int n / 2 ^ (52 + k)"
proof -
  have b: "binade \<bar>v\<bar> = - int k" using assms(1,2,3,4) by (rule binade_lt1)
  have q: "ulp \<bar>v\<bar> = 1 / 2 ^ (52 + k)" using b by (rule ulp_eq(3))
  have nz: "v \<noteq> 0" using assms(1) by auto
  have "\<bar>v / (1 / 2 ^ (52 + k)) - of_int n\<bar> < 1 / 2" using assms(5) by simp
  from binary64_near[OF nz q this] show ?thesis by simp
qed

lemma getGridCoords_binary64_cong:
  "gridSize g' = gridSize g \<Longrightarrow> cellSize g' = cellSize g \<Longrightarrow> getGridCoords_binary64 g' = getGridCoords_binary64 g"
  by (rule ext) (simp add: getGridCoords_binary64_def)

lemma addUnit_binary64_sizes [simp]:
  "gridSize (addUnit_binary64 us g i) = gridSize g" "cellSize (addUnit_binary64 us g i) = cellSize g"
  by (simp_all add: addUnit_binary64_def Let_def)

lemma foldl_addUnit_binary64_sizes [simp]:
  "gridSize (foldl (addUnit_binary64 us) g js) = gridSize g
   \<and> cellSize (foldl (addUnit_binary64 us) g js) = cellSize g"
  by (induction js arbitrary: g) simp_all

lemma cellUnits_addUnit_binary64:
  "cellUnits (addUnit_binary64 us g i) k =
     cellUnits g k @ (if getGridCoords_binary64 g (position (us ! i)) = k then [i] else [])"
  by (simp add: addUnit_binary64_def cellUnits_def Let_def)

lemma cellUnits_foldl_addUnit_binary64:
  "cellUnits (foldl (addUnit_binary64 us) g js) k =
     cellUnits g k @ filter (\<lambda>i. getGridCoords_binary64 g (position (us ! i)) = k) js"
proof (induction js arbitrary: g)
  case Nil
  show ?case by simp
next
  case (Cons j js)
  have "getGridCoords_binary64 (addUnit_binary64 us g j) = getGridCoords_binary64 g"
    by (rule getGridCoords_binary64_cong) simp_all
  with Cons show ?case by (simp add: cellUnits_addUnit_binary64)
qed

lemma cellUnits_buildFromUnits_binary64:
  "cellUnits (buildFromUnits_binary64 us g) k =
     filter (\<lambda>i. getGridCoords_binary64 g (position (us ! i)) = k) [0..<length us]"
proof -
  have "getGridCoords_binary64 (clear g) = getGridCoords_binary64 g"
    by (rule getGridCoords_binary64_cong) (simp_all add: clear_def)
  moreover have "cellUnits (clear g) k = []"
    by (simp add: clear_def cellUnits_def)
  ultimately show ?thesis
    by (simp add: buildFromUnits_binary64_def cellUnits_foldl_addUnit_binary64)
qed

lemma buildFromUnits_binary64_sizes [simp]:
  "gridSize (buildFromUnits_binary64 us g) = gridSize g" "cellSize (buildFromUnits_binary64 us g) = cellSize g"
  by (simp_all add: buildFromUnits_binary64_def clear_def)

text \<open>Querying the grid that was just built visits every unit whose cell lies in the ring
  of cells around the query's cell, once, and keeps it when it is within the radius.\<close>

lemma getNearbyUnits_binary64_mset:
  "mset (getNearbyUnits_binary64 us (buildFromUnits_binary64 us g) p r)
     = mset (filter (\<lambda>i. inRing g p r (position (us ! i))) (bruteForceNearby_binary64 us p r))"
proof -
  define cr where "cr = \<lceil>binary64 (r / cellSize g)\<rceil>"
  define c where "c = getGridCoords_binary64 g p"
  define L where "L = [- cr .. cr]"
  define key where "key = (\<lambda>i. getGridCoords_binary64 g (position (us ! i)))"
  define P where "P = (\<lambda>i. grid_distance3D_binary64 p (position (us ! i)) \<le> r)"
  define ks where "ks = map (\<lambda>(dx, dz). (fst c + dx, snd c + dz)) (List.product L L)"
  have gc: "getGridCoords_binary64 (buildFromUnits_binary64 us g) = getGridCoords_binary64 g"
    by (rule getGridCoords_binary64_cong) simp_all
  have shape: "getNearbyUnits_binary64 us (buildFromUnits_binary64 us g) p r =
      concat (map (\<lambda>k. filter (\<lambda>i. key i = k \<and> P i) [0..<length us]) ks)"
    unfolding getNearbyUnits_binary64_def Let_def gc cellUnits_buildFromUnits_binary64
      buildFromUnits_binary64_sizes concat_nested_product ks_def
    by (simp add: comp_def case_prod_unfold cr_def c_def L_def key_def P_def)
  have "inj (\<lambda>(dx :: int, dz :: int). (fst c + dx, snd c + dz))"
    by (auto simp: inj_on_def)
  then have dist: "distinct ks"
    unfolding ks_def L_def by (simp add: distinct_map distinct_product inj_on_def)
  have box: "key i \<in> set ks \<longleftrightarrow> inRing g p r (position (us ! i))" for i
  proof
    assume "key i \<in> set ks"
    then obtain dx dz where "dx \<in> set L" "dz \<in> set L" "key i = (fst c + dx, snd c + dz)"
      unfolding ks_def by auto
    then show "inRing g p r (position (us ! i))"
      by (auto simp: inRing_def L_def key_def c_def cr_def)
  next
    assume "inRing g p r (position (us ! i))"
    then have a: "\<bar>fst (key i) - fst c\<bar> \<le> cr" and b: "\<bar>snd (key i) - snd c\<bar> \<le> cr"
      by (simp_all add: inRing_def key_def c_def cr_def)
    have "(fst (key i) - fst c, snd (key i) - snd c) \<in> set (List.product L L)"
      using a b by (auto simp: L_def)
    then have "(\<lambda>(dx, dz). (fst c + dx, snd c + dz)) (fst (key i) - fst c, snd (key i) - snd c) \<in> set ks"
      unfolding ks_def by (simp only: set_map) (rule imageI)
    then show "key i \<in> set ks" by simp
  qed
  have "mset (getNearbyUnits_binary64 us (buildFromUnits_binary64 us g) p r) =
        mset (filter (\<lambda>i. key i \<in> set ks \<and> P i) [0..<length us])"
    unfolding shape by (rule mset_concat_filter_keys[OF dist])
  also have "filter (\<lambda>i. key i \<in> set ks \<and> P i) [0..<length us]
      = filter (\<lambda>i. inRing g p r (position (us ! i))) (bruteForceNearby_binary64 us p r)"
    unfolding bruteForceNearby_binary64_def filter_filter by (rule filter_cong) (auto simp: box P_def)
  finally show ?thesis .
qed

lemma edge_grid:
  "gridSize (newSpatialGrid 1000 50) = 20" "cellSize (newSpatialGrid 1000 50) = 50"
  by (simp_all add: newSpatialGrid_def)

lemma cell_index:
  assumes "binary64 (of_int gs * cs) = m" "binary64 (m / 2) = h" "binary64 (v + h) = s"
    "binary64 (s / cs) = q" "\<lfloor>q\<rfloor> = n"
  shows "\<lfloor>binary64 (binary64 (v + binary64 (binary64 (of_int gs * cs) / 2)) / cs)\<rfloor> = n"
  by (simp only: assms)

lemma edge_half:
  "binary64 (of_int 20 * 50) = 1000" "binary64 (1000 / 2) = 500"
proof -
  have "of_int 20 * (50::real) = 1000" "(1000::real) / 2 = 500" by simp_all
  then show "binary64 (of_int 20 * 50) = 1000" "binary64 (1000 / 2) = 500"
    by (simp_all only: binary64_values)
qed

lemma edge_index:
  "\<lfloor>binary64 (binary64 ((50 - 7 / 2 ^ 47) + binary64 (binary64 (of_int 20 * 50) / 2)) / 50)\<rfloor> = 11"
  "\<lfloor>binary64 (binary64 (- (5 / 2 ^ 47) + binary64 (binary64 (of_int 20 * 50) / 2)) / 50)\<rfloor> = 9"
  "\<lfloor>binary64 (binary64 (0 + binary64 (binary64 (of_int 20 * 50) / 2)) / 50)\<rfloor> = 10"
proof -
  have a: "(50 - 7 / 2 ^ 47) + (500::real) = 550 - 7 / 2 ^ 47" "(550::real) / 50 = 11" by simp_all
  have "binary64 ((50 - 7 / 2 ^ 47) + 500) = 550" "binary64 (550 / 50) = 11"
    unfolding a by (rule binary64_values)+
  moreover have "\<lfloor>11::real\<rfloor> = 11" by simp
  ultimately show "\<lfloor>binary64 (binary64 ((50 - 7 / 2 ^ 47) + binary64 (binary64 (of_int 20 * 50) / 2)) / 50)\<rfloor> = 11"
    by (intro cell_index[OF edge_half])
  have b: "- (5 / 2 ^ 47) + (500::real) = 500 - 5 / 2 ^ 47" by simp
  have "binary64 (- (5 / 2 ^ 47) + 500) = 500 - 1 / 2 ^ 44"
    "binary64 ((500 - 1 / 2 ^ 44) / 50) = 10 - 1 / 2 ^ 49"
    unfolding b by (rule binary64_values)+
  moreover have "\<lfloor>(10::real) - 1 / 2 ^ 49\<rfloor> = 9" by (rule floor_unique) simp_all
  ultimately show "\<lfloor>binary64 (binary64 (- (5 / 2 ^ 47) + binary64 (binary64 (of_int 20 * 50) / 2)) / 50)\<rfloor> = 9"
    by (intro cell_index[OF edge_half])
  have c: "0 + (500::real) = 500" "(500::real) / 50 = 10" by simp_all
  have "binary64 (0 + 500) = 500" "binary64 (500 / 50) = 10"
    unfolding c by (rule binary64_values)+
  moreover have "\<lfloor>10::real\<rfloor> = 10" by simp
  ultimately show "\<lfloor>binary64 (binary64 (0 + binary64 (binary64 (of_int 20 * 50) / 2)) / 50)\<rfloor> = 10"
    by (intro cell_index[OF edge_half])
qed

lemma edge_positions:
  "position edgeUnit = \<lparr> x = 50 - 7 / 2 ^ 47, y = 0, z = 0 \<rparr>"
  "position innerUnit = \<lparr> x = 0, y = 0, z = 0 \<rparr>"
  by (simp_all add: edgeUnit_def innerUnit_def create_defs)

lemma edge_coords:
  "getGridCoords_binary64 (newSpatialGrid 1000 50) (position edgeUnit) = (11, 10)"
  "getGridCoords_binary64 (newSpatialGrid 1000 50) edgeQuery = (9, 10)"
  "getGridCoords_binary64 (newSpatialGrid 1000 50) (position innerUnit) = (10, 10)"
  "\<lceil>binary64 (50 / cellSize (newSpatialGrid 1000 50))\<rceil> = 1"
proof -
  show "getGridCoords_binary64 (newSpatialGrid 1000 50) (position edgeUnit) = (11, 10)"
    unfolding getGridCoords_binary64_def Let_def edge_grid edge_positions Position3D.simps
    by (simp only: edge_index)
  show "getGridCoords_binary64 (newSpatialGrid 1000 50) edgeQuery = (9, 10)"
    unfolding getGridCoords_binary64_def Let_def edge_grid edgeQuery_def Position3D.simps
    by (simp only: edge_index)
  show "getGridCoords_binary64 (newSpatialGrid 1000 50) (position innerUnit) = (10, 10)"
    unfolding getGridCoords_binary64_def Let_def edge_grid edge_positions Position3D.simps
    by (simp only: edge_index)
  have "(50::real) / 50 = 1" by simp
  then have "binary64 (50 / 50) = 1" by (simp only: binary64_values)
  then show "\<lceil>binary64 (50 / cellSize (newSpatialGrid 1000 50))\<rceil> = 1"
    unfolding edge_grid by simp
qed

lemma binary64_between:
  assumes "k < 52" "2 ^ k \<le> v" "v < 2 ^ Suc k"
    "(of_int n - 1 / 2) / 2 ^ (52 - k) < v" "v < (of_int n + 1 / 2) / 2 ^ (52 - k)"
  shows "binary64 v = of_int n / 2 ^ (52 - k)"
proof -
  have p: "(0::real) < 2 ^ (52 - k)" by simp
  have "of_int n - 1 / 2 < v * 2 ^ (52 - k)" using assms(4) p by (simp add: pos_divide_less_eq)
  moreover have "v * 2 ^ (52 - k) < of_int n + 1 / 2" using assms(5) p by (simp add: pos_less_divide_eq)
  ultimately have d: "\<bar>v * 2 ^ (52 - k) - of_int n\<bar> < 1 / 2" by linarith
  have "(0::real) \<le> 2 ^ k" by simp
  with assms(2) have "\<bar>v\<bar> = v" by linarith
  with assms(2,3) have "2 ^ k \<le> \<bar>v\<bar>" "\<bar>v\<bar> < 2 ^ Suc k" by simp_all
  from binary64_at[OF this assms(1) d] show ?thesis .
qed

lemma distance_steps:
  assumes "binary64 (xa - xb) = dx" "binary64 (ya - yb) = dy" "binary64 (za - zb) = dz"
    "binary64 (dx * dx) = sx" "binary64 (dy * dy) = sy" "binary64 (dz * dz) = sz"
    "binary64 (sx + sy) = t" "binary64 (t + sz) = u" "binary64 (sqrt u) = d"
  shows "grid_distance3D_binary64 \<lparr> x = xa, y = ya, z = za \<rparr> \<lparr> x = xb, y = yb, z = zb \<rparr> = d"
  by (simp add: grid_distance3D_binary64_def Let_def assms)

lemma edge_distance:
  "grid_distance3D_binary64 edgeQuery (position edgeUnit) = 50 - 2 / 2 ^ 47"
proof -
  have z: "binary64 (0 - 0) = 0" "binary64 (0 * 0) = 0" by simp_all
  have dx: "binary64 (- (5 / 2 ^ 47) - (50 - 7 / 2 ^ 47)) = - (50 - 2 / 2 ^ 47)"
    using binary64_at[of 5 "- (5 / 2 ^ 47) - (50 - 7 / 2 ^ 47)" "- (50 * 2 ^ 47 - 2)"] by simp
  have sx: "binary64 (- (50 - 2 / 2 ^ 47) * - (50 - 2 / 2 ^ 47)) = 2500 - 3 / 2 ^ 41"
    using binary64_at[of 11 "- (50 - 2 / 2 ^ 47) * - (50 - 2 / 2 ^ 47)" "2500 * 2 ^ 41 - 3"] by simp
  have t: "binary64 (2500 - 3 / 2 ^ 41 + 0) = 2500 - 3 / 2 ^ 41"
    using binary64_at[of 11 "2500 - 3 / 2 ^ 41 + 0" "2500 * 2 ^ 41 - 3"] by simp
  have d: "binary64 (sqrt (2500 - 3 / 2 ^ 41)) = 50 - 2 / 2 ^ 47"
  proof -
    have "binary64 (sqrt (2500 - 3 / 2 ^ 41)) = of_int (50 * 2 ^ 47 - 2) / 2 ^ (52 - 5)"
    proof (rule binary64_between)
      show "(5::nat) < 52" by simp
      show "2 ^ 5 \<le> sqrt (2500 - 3 / 2 ^ 41)" by (subst sqrt_le_iff_sq) simp_all
      show "sqrt (2500 - 3 / 2 ^ 41) < 2 ^ Suc 5" by (subst sqrt_le_iff_sq) simp_all
      show "(of_int (50 * 2 ^ 47 - 2) - 1 / 2) / 2 ^ (52 - 5) < sqrt (2500 - 3 / 2 ^ 41)"
        by (subst sqrt_le_iff_sq) simp_all
      show "sqrt (2500 - 3 / 2 ^ 41) < (of_int (50 * 2 ^ 47 - 2) + 1 / 2) / 2 ^ (52 - 5)"
        by (subst sqrt_le_iff_sq) simp_all
    qed
    then show ?thesis by simp
  qed
  show ?thesis
    unfolding edge_positions edgeQuery_def
    by (rule distance_steps[OF dx z(1) z(1) sx z(2) z(2) t t d])
qed

lemma inner_distance:
  "grid_distance3D_binary64 edgeQuery (position innerUnit) = 5 / 2 ^ 47"
proof -
  have z: "binary64 (0 - 0) = 0" "binary64 (0 * 0) = 0" by simp_all
  have dx: "binary64 (- (5 / 2 ^ 47) - 0) = - (5 / 2 ^ 47)"
    using binary64_at_small[of "- (5 / 2 ^ 47) - 0" 45 "- (5 * 2 ^ 50)"] by simp
  have sx: "binary64 (- (5 / 2 ^ 47) * - (5 / 2 ^ 47)) = 25 / 2 ^ 94"
    using binary64_at_small[of "- (5 / 2 ^ 47) * - (5 / 2 ^ 47)" 90 "25 * 2 ^ 48"] by simp
  have t: "binary64 (25 / 2 ^ 94 + 0) = 25 / 2 ^ 94"
    using binary64_at_small[of "25 / 2 ^ 94 + 0" 90 "25 * 2 ^ 48"] by simp
  have r: "sqrt (25 / 2 ^ 94) = 5 / 2 ^ 47" by (rule real_sqrt_unique) (simp_all add: power2_eq_square)
  have "binary64 (5 / 2 ^ 47) = 5 / 2 ^ 47"
    using binary64_at_small[of "5 / 2 ^ 47" 45 "5 * 2 ^ 50"] by simp
  then have d: "binary64 (sqrt (25 / 2 ^ 94)) = 5 / 2 ^ 47" by (simp only: r)
  show ?thesis
    unfolding edge_positions edgeQuery_def
    by (rule distance_steps[OF dx z(1) z(1) sx z(2) z(2) t t d])
qed

lemma edge_inRing:
  "\<not> inRing (newSpatialGrid 1000 50) edgeQuery 50 (position edgeUnit)"
  "inRing (newSpatialGrid 1000 50) edgeQuery 50 (position innerUnit)"
  by (simp_all add: inRing_def edge_coords)

lemma edge_exact_distance:
  "grid_distance3D edgeQuery (position edgeUnit) \<le> 50"
  unfolding grid_distance3D_def edge_positions edgeQuery_def
  by (subst sqrt_le_iff_sq) simp_all



lemma below_limit:
  fixes v :: real
  assumes "\<bar>v\<bar> < 2 ^ 11"
  shows "\<bar>v\<bar> < 2 ^ 1023"
proof -
  have "(2::real) ^ 11 \<le> 2 ^ 1023" by (rule power_increasing) simp_all
  with assms show ?thesis by (rule less_le_trans)
qed

lemma finiteCell_at:
  assumes "binary64 (of_int gs * cs) = m" "binary64 (m / 2) = h"
    "binary64 (xv + h) = sx" "binary64 (zv + h) = sz"
    "\<bar>of_int gs * cs\<bar> < 2 ^ 11" "\<bar>xv + h\<bar> < 2 ^ 11" "\<bar>zv + h\<bar> < 2 ^ 11"
    "\<bar>sx / cs\<bar> < 2 ^ 11" "\<bar>sz / cs\<bar> < 2 ^ 11"
    "gridSize g = gs" "cellSize g = cs" "\<bar>gs\<bar> \<le> 2 ^ 53"
  shows "finiteCell g \<lparr> x = xv, y = yv, z = zv \<rparr>"
  unfolding finiteCell_def Let_def Position3D.simps assms(10,11) assms(1) assms(2) assms(3) assms(4)
  by (intro conjI below_limit) (fact assms)+

lemma edge_finite:
  "finiteCell (newSpatialGrid 1000 50) edgeQuery"
  "finiteCell (newSpatialGrid 1000 50) (position edgeUnit)"
  "finiteCell (newSpatialGrid 1000 50) (position innerUnit)"
proof -
  have a: "(50 - 7 / 2 ^ 47) + (500::real) = 550 - 7 / 2 ^ 47"
    "- (5 / 2 ^ 47) + (500::real) = 500 - 5 / 2 ^ 47" "0 + (500::real) = 500" by simp_all
  have s: "binary64 ((50 - 7 / 2 ^ 47) + 500) = 550" "binary64 (- (5 / 2 ^ 47) + 500) = 500 - 1 / 2 ^ 44"
    "binary64 (0 + 500) = 500"
    unfolding a by (rule binary64_values)+
  show "finiteCell (newSpatialGrid 1000 50) edgeQuery"
    unfolding edgeQuery_def
    by (rule finiteCell_at[OF edge_half s(2) s(3)]) (simp_all add: edge_grid)
  show "finiteCell (newSpatialGrid 1000 50) (position edgeUnit)"
    unfolding edge_positions
    by (rule finiteCell_at[OF edge_half s(1) s(3)]) (simp_all add: edge_grid)
  show "finiteCell (newSpatialGrid 1000 50) (position innerUnit)"
    unfolding edge_positions
    by (rule finiteCell_at[OF edge_half s(3) s(3)]) (simp_all add: edge_grid)
qed


section \<open>The spawning cap\<close>

lemma lookupCount_countUnit:
  "lookupCount (countUnit c u) owner a =
     lookupCount c owner a + (if kind u = Unit \<and> ownerId u = owner \<and> animal u = a then 1 else 0)"
  by (auto simp: lookupCount_def countUnit_def Let_def split: option.splits)

lemma lookupCount_foldl:
  "lookupCount (foldl countUnit c us) owner a = lookupCount c owner a + countSpecies us owner a"
  by (induction us arbitrary: c) (simp_all add: lookupCount_countUnit countSpecies_def)

text \<open>The count cached when the tick begins is the number of the owner's units of the
  species at that moment.\<close>

lemma cachedCount_tickPrepare:
  "cachedCount (tickPrepare d) owner a = countSpecies (units d) owner a"
proof -
  have "cachedCount (tickPrepare d) owner a = lookupCount (foldl countUnit Map.empty (units d)) owner a"
    by (simp add: cachedCount_def lookupCount_def tickPrepare_def Let_def)
  also have "\<dots> = lookupCount Map.empty owner a + countSpecies (units d) owner a"
    by (rule lookupCount_foldl)
  finally show ?thesis by (simp add: lookupCount_def)
qed

lemma species_spawnedUnit:
  "species (spawnedUnit d e qi) = (Unit, ownerId (units d ! qi), animal (units d ! qi))"
proof -
  have "core (spawnedUnit d e qi) = core (fst (createUnit (ownerId (units d ! qi)) (animal (units d ! qi))
      (spawnSpot d qi) (if Some (ownerId (units d ! qi)) = localPlayerId d then pi else 0) e))"
    by (simp add: spawnedUnit_def Let_def core_checkCollision)
  then show ?thesis
    by (simp add: core_def species_def createUnit_def Let_def split_beta)
qed

lemma position_spawnedUnit:
  "position (spawnedUnit d e qi) =
     fst (checkCollision (spawnSpot d qi)
           (fst (createUnit (ownerId (units d ! qi)) (animal (units d ! qi)) (spawnSpot d qi)
                  (if Some (ownerId (units d ! qi)) = localPlayerId d then pi else 0) e))
           (units d) 2.5 (selectedUnitIds d) (localPlayerId d) (unitOrders d)
           (snd (createUnit (ownerId (units d ! qi)) (animal (units d ! qi)) (spawnSpot d qi)
                  (if Some (ownerId (units d ! qi)) = localPlayerId d then pi else 0) e)))"
  by (simp add: spawnedUnit_def Let_def)

text \<open>The body of the loop over the queens, case by case.\<close>

lemma spawnFromQueen_eq:
  "fst (spawnFromQueen nowMs (d, e) qi) =
     (if spawnDue nowMs d qi
      then (if cachedCount d (ownerId (units d ! qi)) (animal (units d ! qi)) < 20
            then d\<lparr> units := units d @ [spawnedUnit d e qi],
                    lastSpawnAtMsByQueenId := (lastSpawnAtMsByQueenId d)(unit_id (units d ! qi) \<mapsto> nowMs) \<rparr>
            else d\<lparr> lastSpawnAtMsByQueenId := (lastSpawnAtMsByQueenId d)(unit_id (units d ! qi) \<mapsto> nowMs) \<rparr>)
      else d)"
  by (simp add: spawnFromQueen_def spawnDue_def spawnedUnit_def spawnSpot_def Let_def split_beta)

lemma countSpecies_append [simp]:
  "countSpecies (us @ vs) owner a = countSpecies us owner a + countSpecies vs owner a"
  by (simp add: countSpecies_def)

lemma countSpecies_single:
  "countSpecies [u] owner a = (if species u = (Unit, owner, a) then 1 else 0)"
  by (simp add: countSpecies_def species_def)

lemma spawnFromQueen_units:
  "\<exists>xs. units (fst (spawnFromQueen nowMs (d, e) qi)) = units d @ xs
     \<and> countSpecies xs owner a =
         (if spawnDue nowMs d qi \<and> cachedCount d owner a < 20
             \<and> ownerId (units d ! qi) = owner \<and> animal (units d ! qi) = a then 1 else 0)"
proof (cases "spawnDue nowMs d qi \<and> cachedCount d (ownerId (units d ! qi)) (animal (units d ! qi)) < 20")
  case True
  then have "units (fst (spawnFromQueen nowMs (d, e) qi)) = units d @ [spawnedUnit d e qi]"
    by (simp add: spawnFromQueen_eq)
  moreover have "countSpecies [spawnedUnit d e qi] owner a =
         (if spawnDue nowMs d qi \<and> cachedCount d owner a < 20
             \<and> ownerId (units d ! qi) = owner \<and> animal (units d ! qi) = a then 1 else 0)"
    using True by (auto simp: countSpecies_single species_spawnedUnit)
  ultimately show ?thesis by blast
next
  case False
  then have "units (fst (spawnFromQueen nowMs (d, e) qi)) = units d @ []"
    by (auto simp: spawnFromQueen_eq)
  moreover have "countSpecies [] owner a =
         (if spawnDue nowMs d qi \<and> cachedCount d owner a < 20
             \<and> ownerId (units d ! qi) = owner \<and> animal (units d ! qi) = a then 1 else 0)"
    using False by (auto simp: countSpecies_def)
  ultimately show ?thesis by blast
qed

lemma spawnFromQueen_cache [simp]:
  "unitCountCache (fst (spawnFromQueen nowMs (d, e) qi)) = unitCountCache d"
  by (simp add: spawnFromQueen_eq)

lemma cachedCount_cong:
  "unitCountCache d' = unitCountCache d \<Longrightarrow> cachedCount d' owner a = cachedCount d owner a"
  by (simp add: cachedCount_def)

text \<open>The loop over the queens adds at most one unit of an owner and species for each of
  the owner's queens of that species, and none when the cached count has reached 20.\<close>

lemma spawnPass_count_le:
  assumes "\<forall>qi\<in>set qis. qi < length (units d)"
  shows "countSpecies (units (fst (spawnPass nowMs qis (d, e)))) owner a
       \<le> countSpecies (units d) owner a
         + (if cachedCount d owner a < 20
            then length (filter (\<lambda>qi. ownerId (units d ! qi) = owner \<and> animal (units d ! qi) = a) qis)
            else 0)"
  using assms
proof (induction qis arbitrary: d e)
  case Nil
  then show ?case by (simp add: spawnPass_def)
next
  case (Cons q qis)
  obtain d1 e1 where st: "spawnFromQueen nowMs (d, e) q = (d1, e1)" by (cases "spawnFromQueen nowMs (d, e) q")
  then have d1: "d1 = fst (spawnFromQueen nowMs (d, e) q)" by simp
  obtain xs where xs: "units d1 = units d @ xs"
    and cx: "countSpecies xs owner a =
         (if spawnDue nowMs d q \<and> cachedCount d owner a < 20
             \<and> ownerId (units d ! q) = owner \<and> animal (units d ! q) = a then 1 else 0)"
    using spawnFromQueen_units[of nowMs d e q owner a] unfolding d1 by blast
  have cc: "cachedCount d1 owner a = cachedCount d owner a"
    unfolding d1 by (rule cachedCount_cong) simp
  have same: "units d1 ! qi = units d ! qi" if "qi \<in> set qis" for qi
    using that Cons.prems by (simp add: xs nth_append)
  have bound: "\<forall>qi\<in>set qis. qi < length (units d1)" using Cons.prems by (auto simp: xs)
  have flt: "filter (\<lambda>qi. ownerId (units d1 ! qi) = owner \<and> animal (units d1 ! qi) = a) qis
      = filter (\<lambda>qi. ownerId (units d ! qi) = owner \<and> animal (units d ! qi) = a) qis"
    by (rule filter_cong) (simp_all add: same)
  have "countSpecies (units (fst (spawnPass nowMs (q # qis) (d, e)))) owner a
      = countSpecies (units (fst (spawnPass nowMs qis (d1, e1)))) owner a"
    by (simp add: spawnPass_def st)
  also have "\<dots> \<le> countSpecies (units d1) owner a
         + (if cachedCount d1 owner a < 20
            then length (filter (\<lambda>qi. ownerId (units d1 ! qi) = owner \<and> animal (units d1 ! qi) = a) qis)
            else 0)"
    by (rule Cons.IH[OF bound])
  also have "\<dots> \<le> countSpecies (units d) owner a
         + (if cachedCount d owner a < 20
            then length (filter (\<lambda>qi. ownerId (units d ! qi) = owner \<and> animal (units d ! qi) = a) (q # qis))
            else 0)"
  proof -
    have c1: "countSpecies (units d1) owner a = countSpecies (units d) owner a + countSpecies xs owner a"
      by (simp add: xs)
    show ?thesis unfolding cc flt c1 using cx by simp
  qed
  finally show ?case .
qed

text \<open>The loop reads the count that was cached when the tick began: due queens of one owner
  and one species all spawn while that count is below 20, however many they are.\<close>

lemma spawnPass_stale_count:
  assumes "distinct (map (\<lambda>qi. unit_id (units d ! qi)) qis)"
    and "\<forall>qi\<in>set qis. qi < length (units d) \<and> spawnDue nowMs d qi
            \<and> ownerId (units d ! qi) = owner \<and> animal (units d ! qi) = a"
    and "cachedCount d owner a < 20"
  shows "countSpecies (units (fst (spawnPass nowMs qis (d, e)))) owner a
           = countSpecies (units d) owner a + length qis"
  using assms
proof (induction qis arbitrary: d e)
  case Nil
  then show ?case by (simp add: spawnPass_def)
next
  case (Cons q qis)
  obtain d1 e1 where st: "spawnFromQueen nowMs (d, e) q = (d1, e1)" by (cases "spawnFromQueen nowMs (d, e) q")
  have q: "spawnDue nowMs d q" "ownerId (units d ! q) = owner" "animal (units d ! q) = a"
    using Cons.prems(2) by simp_all
  have d1: "d1 = d\<lparr> units := units d @ [spawnedUnit d e q],
        lastSpawnAtMsByQueenId := (lastSpawnAtMsByQueenId d)(unit_id (units d ! q) \<mapsto> nowMs) \<rparr>"
    using spawnFromQueen_eq[of nowMs d e q] st q Cons.prems(3) by simp
  have same: "units d1 ! qi = units d ! qi" if "qi \<in> set qis" for qi
    using that Cons.prems(2) by (simp add: d1 nth_append)
  have 1: "distinct (map (\<lambda>qi. unit_id (units d1 ! qi)) qis)"
  proof -
    have "map (\<lambda>qi. unit_id (units d1 ! qi)) qis = map (\<lambda>qi. unit_id (units d ! qi)) qis"
      by (rule map_cong) (simp_all add: same)
    moreover have "distinct (map (\<lambda>qi. unit_id (units d ! qi)) qis)"
      using Cons.prems(1) by simp
    ultimately show ?thesis by (simp only:)
  qed
  have 2: "\<forall>qi\<in>set qis. qi < length (units d1) \<and> spawnDue nowMs d1 qi
            \<and> ownerId (units d1 ! qi) = owner \<and> animal (units d1 ! qi) = a"
  proof
    fix qi assume m: "qi \<in> set qis"
    have old: "qi < length (units d)" "spawnDue nowMs d qi" "ownerId (units d ! qi) = owner"
      "animal (units d ! qi) = a"
      using m Cons.prems(2) by simp_all
    have ne: "unit_id (units d ! qi) \<noteq> unit_id (units d ! q)"
      using Cons.prems(1) m by (auto simp: image_iff)
    have "lastSpawnAtMsByQueenId d1 (unit_id (units d ! qi)) = lastSpawnAtMsByQueenId d (unit_id (units d ! qi))"
      using ne by (simp add: d1)
    moreover have "config d1 = config d" by (simp add: d1)
    ultimately have "spawnDue nowMs d1 qi"
      using old(2) unfolding spawnDue_def same[OF m] by simp
    moreover have "qi < length (units d1)" using old(1) by (simp add: d1)
    ultimately show "qi < length (units d1) \<and> spawnDue nowMs d1 qi
            \<and> ownerId (units d1 ! qi) = owner \<and> animal (units d1 ! qi) = a"
      using old(3,4) by (simp add: same[OF m])
  qed
  have 3: "cachedCount d1 owner a < 20" using Cons.prems(3) by (simp add: d1 cachedCount_def)
  have "countSpecies (units (fst (spawnPass nowMs (q # qis) (d, e)))) owner a
          = countSpecies (units (fst (spawnPass nowMs qis (d1, e1)))) owner a"
    by (simp add: spawnPass_def st)
  also have "\<dots> = countSpecies (units d1) owner a + length qis"
    by (rule Cons.IH[OF 1 2 3])
  also have "countSpecies (units d1) owner a = countSpecies (units d) owner a + 1"
    using q by (simp add: d1 countSpecies_single species_spawnedUnit)
  finally show ?case by simp
qed

lemma species_via_core: "species u = (fst (snd (snd (snd (core u)))), fst (snd (core u)), fst (snd (snd (core u))))"
  by (simp add: species_def core_def)

lemma map_species_core:
  assumes "map core us' = map core us"
  shows "map species us' = map species us"
proof -
  have "map species us' = map (\<lambda>c. (fst (snd (snd (snd c))), fst (snd c), fst (snd (snd c)))) (map core us')"
    by (simp add: species_via_core comp_def)
  also have "\<dots> = map (\<lambda>c. (fst (snd (snd (snd c))), fst (snd c), fst (snd (snd c)))) (map core us)"
    by (simp only: assms)
  also have "\<dots> = map species us" by (simp add: species_via_core comp_def)
  finally show ?thesis .
qed

lemma countSpecies_via_species:
  "countSpecies us owner a = length (filter (\<lambda>s. s = (Unit, owner, a)) (map species us))"
  by (simp add: countSpecies_def species_def filter_map comp_def)

lemma countSpecies_cong:
  "map species us' = map species us \<Longrightarrow> countSpecies us' owner a = countSpecies us owner a"
  by (simp add: countSpecies_via_species)

lemma countSpecies_filter_le:
  "countSpecies (filter Q us) owner a \<le> countSpecies us owner a"
  unfolding countSpecies_def by (induction us) auto

lemma species_regenUnit [simp]:
  "map species (units (regenUnit nowMs d i)) = map species (units d)"
  by (simp add: regenUnit_eq healed_def map_update_same species_def)

lemma cache_regenUnit [simp]:
  "unitCountCache (regenUnit nowMs d i) = unitCountCache d"
  by (simp add: regenUnit_eq)

lemma regenPass_frame:
  "map species (units (regenPass nowMs hs d)) = map species (units d)"
  "unitCountCache (regenPass nowMs hs d) = unitCountCache d"
proof -
  have "map species (units (foldl (regenUnit nowMs) d js)) = map species (units d)
      \<and> unitCountCache (foldl (regenUnit nowMs) d js) = unitCountCache d" for js
    by (induction js arbitrary: d) simp_all
  then show "map species (units (regenPass nowMs hs d)) = map species (units d)"
    "unitCountCache (regenPass nowMs hs d) = unitCountCache d"
    by (simp_all add: regenPass_def Let_def)
qed

lemma species_applyCombatPair [simp]:
  "map species (units (draft (applyCombatPair r pr))) = map species (units (draft r))"
proof -
  obtain a t damage where pr: "pr = (a, t, damage)" by (cases pr)
  have h: "map species (units (updUnit t (\<lambda>u. u\<lparr> hp := hp u - damage \<rparr>) d)) = map species (units d)" for d
    by (rule map_updUnit) (simp add: species_def)
  have m: "map species (units (draft (moveAlong k t dir r'))) = map species (units (draft r'))" for k dir r'
    by (rule map_species_core) simp
  show ?thesis
    unfolding pr by (simp add: applyCombatPair_def Let_def m h)
qed

lemma species_applyCombat [simp]:
  "map species (units (draft (applyCombat r))) = map species (units (draft r))"
proof -
  have "map species (units (draft (foldl applyCombatPair r ps))) = map species (units (draft r))" for ps
    by (induction ps arbitrary: r) simp_all
  then show ?thesis by (simp add: applyCombat_def)
qed

lemma countSpecies_removeDeadUnits:
  "countSpecies (units (removeDeadUnits d)) owner a \<le> countSpecies (units d) owner a"
proof (cases "length (deadUnitsToRemove d) > 0")
  case True
  let ?d1 = "foldl forgetDead d (deadUnitsToRemove d)"
  have "map species (units ?d1) = map species (units d)" by (rule map_species_core) simp
  then have "countSpecies (units ?d1) owner a = countSpecies (units d) owner a" by (rule countSpecies_cong)
  moreover have "countSpecies (units (removeDeadUnits d)) owner a \<le> countSpecies (units ?d1) owner a"
    using True by (simp add: units_removeDeadUnits countSpecies_filter_le)
  ultimately show ?thesis by simp
next
  case False
  then show ?thesis by (simp add: units_removeDeadUnits)
qed

lemma countSpecies_tickFinish:
  "countSpecies (units (fst (tickFinish nowMs r))) owner a \<le> countSpecies (units (draft r)) owner a"
proof -
  have "map species (units (fst (tickFinish nowMs r))) = map species (units (removeDeadUnits (draft r)))"
    by (rule map_species_core) (rule units_tickFinish)
  then have "countSpecies (units (fst (tickFinish nowMs r))) owner a
      = countSpecies (units (removeDeadUnits (draft r))) owner a" by (rule countSpecies_cong)
  then show ?thesis using countSpecies_removeDeadUnits[of "draft r" owner a] by simp
qed

text \<open>After the spawning stage nothing of a tick adds a unit.\<close>

lemma countSpecies_after_spawning:
  assumes "matchStarted s" "\<not> isPaused s"
  shows "countSpecies (units (fst (tick dt nowMs (s, e)))) owner a
       \<le> countSpecies (units (draft (beforeBehavior nowMs (s, e)))) owner a"
proof -
  let ?r3 = "beforeBehavior nowMs (s, e)"
  let ?r4 = "behaviorPass dt nowMs (movableUnitsOf (units s)) ?r3"
  have t: "tick dt nowMs (s, e) = tickFinish nowMs (applyCombat ?r4)"
    using assms by (simp add: tick_def tickThroughCombat_stages)
  have "map species (units (draft ?r4)) = map species (units (draft ?r3))"
    by (rule map_species_core) simp
  then have "map species (units (draft (applyCombat ?r4))) = map species (units (draft ?r3))" by simp
  then have "countSpecies (units (draft (applyCombat ?r4))) owner a = countSpecies (units (draft ?r3)) owner a"
    by (rule countSpecies_cong)
  then show ?thesis
    unfolding t using countSpecies_tickFinish[of nowMs "applyCombat ?r4" owner a] by simp
qed

lemma length_filter_indices:
  "length (filter (\<lambda>i. P (us ! i)) [0..<length us]) = length (filter P us)"
proof -
  have "filter P us = filter P (map ((!) us) [0..<length us])" by (simp add: map_nth)
  also have "\<dots> = map ((!) us) (filter (\<lambda>i. P (us ! i)) [0..<length us])"
    by (simp add: filter_map comp_def)
  finally show ?thesis by simp
qed

text \<open>The spawning stage of a tick adds at most as many units of an owner and species as
  the owner has queens of that species, and none once the count has reached 20.\<close>

lemma countSpecies_beforeBehavior:
  "countSpecies (units (draft (beforeBehavior nowMs (s, e)))) owner a
     \<le> countSpecies (units s) owner a
       + (if countSpecies (units s) owner a < 20
          then length (filter (\<lambda>u. kind u = Queen \<and> ownerId u = owner \<and> animal u = a) (units s))
          else 0)"
proof -
  let ?d2 = "regenPass nowMs (unitsNeedingHealingOf (units s)) (tickPrepare s)"
  have sp: "map species (units ?d2) = map species (units s)"
    using regenPass_frame(1)[of nowMs "unitsNeedingHealingOf (units s)" "tickPrepare s"] by simp
  then have len: "length (units ?d2) = length (units s)" by (rule map_eq_imp_length_eq)
  have cnt: "countSpecies (units ?d2) owner a = countSpecies (units s) owner a"
    using sp by (rule countSpecies_cong)
  have cc: "cachedCount ?d2 owner a = countSpecies (units s) owner a"
    using cachedCount_cong[OF regenPass_frame(2)] by (simp add: cachedCount_tickPrepare)
  have sp_nth: "species (units ?d2 ! i) = species (units s ! i)" if "i < length (units s)" for i
    using sp that len by (metis length_map nth_map)
  have bound: "\<forall>qi\<in>set (queensOf (units s)). qi < length (units ?d2)"
    by (simp add: queensOf_def len)
  have "filter (\<lambda>qi. ownerId (units ?d2 ! qi) = owner \<and> animal (units ?d2 ! qi) = a) (queensOf (units s))
      = filter (\<lambda>i. (\<lambda>u. kind u = Queen \<and> ownerId u = owner \<and> animal u = a) (units s ! i)) [0..<length (units s)]"
    unfolding queensOf_def filter_filter
  proof (rule filter_cong)
    fix i assume "i \<in> set [0..<length (units s)]"
    then have "species (units ?d2 ! i) = species (units s ! i)" by (simp add: sp_nth)
    then show "(kind (units s ! i) = Queen \<and> ownerId (units ?d2 ! i) = owner \<and> animal (units ?d2 ! i) = a)
        = (kind (units s ! i) = Queen \<and> ownerId (units s ! i) = owner \<and> animal (units s ! i) = a)"
      by (auto simp: species_def)
  qed simp
  then have qs: "length (filter (\<lambda>qi. ownerId (units ?d2 ! qi) = owner \<and> animal (units ?d2 ! qi) = a) (queensOf (units s)))
      = length (filter (\<lambda>u. kind u = Queen \<and> ownerId u = owner \<and> animal u = a) (units s))"
    using length_filter_indices[of "\<lambda>u. kind u = Queen \<and> ownerId u = owner \<and> animal u = a" "units s"]
    by simp
  have "draft (beforeBehavior nowMs (s, e)) = fst (spawnPass nowMs (queensOf (units s)) (?d2, e))"
    by (simp add: beforeBehavior_def Let_def)
  then show ?thesis
    using spawnPass_count_le[OF bound, of nowMs e owner a] unfolding cnt cc qs by simp
qed

text \<open>With at most one queen of the species, an owner's units of that species stay at 20 or
  fewer through a tick.\<close>

lemma tick_keeps_cap:
  assumes "length (filter (\<lambda>u. kind u = Queen \<and> ownerId u = owner \<and> animal u = a) (units s)) \<le> 1"
    and "countSpecies (units s) owner a \<le> 20"
  shows "countSpecies (units (fst (tick dt nowMs (s, e)))) owner a \<le> 20"
proof (cases "\<not> matchStarted s \<or> isPaused s")
  case True
  then show ?thesis using assms(2) by (simp add: tick_def)
next
  case False
  then have run: "matchStarted s" "\<not> isPaused s" by simp_all
  have "countSpecies (units (draft (beforeBehavior nowMs (s, e)))) owner a \<le> 20"
    using countSpecies_beforeBehavior[of nowMs s e owner a] assms by (simp split: if_splits)
  with countSpecies_after_spawning[OF run, of dt nowMs e owner a] show ?thesis by simp
qed

lemma getNearbyUnits_from_cells:
  "j \<in> set (getNearbyUnits us g p r) \<Longrightarrow> \<exists>k. j \<in> set (cellUnits g k)"
  by (auto simp: getNearbyUnits_def Let_def)

lemma findEnemiesInRange_none:
  assumes "\<forall>u\<in>set us. ownerId u = owner" "i < length us"
    "\<forall>k j. j \<in> set (cellUnits g k) \<longrightarrow> j < length us"
  shows "findEnemiesInRange us g i rng = []"
proof -
  have "ownerId (us ! j) = ownerId (us ! i)" if "j \<in> set (getNearbyUnits us g (position (us ! i)) rng)" for j
  proof -
    from that obtain k where "j \<in> set (cellUnits g k)" using getNearbyUnits_from_cells by blast
    then have "j < length us" using assms(3) by blast
    then show ?thesis using assms(1,2) by simp
  qed
  then show ?thesis by (simp add: findEnemiesInRange_def filter_empty_conv)
qed

lemma recentTarget_none:
  assumes "\<forall>u\<in>set us. ownerId u = owner" "i < length us"
  shows "recentTarget nowMs us i = None"
proof -
  have "ownerId (us ! j) = ownerId (us ! i)" if "findUnit us lt = Some j" for j lt
    using findUnit_Some[OF that] assms by simp
  then show ?thesis
    by (auto simp: recentTarget_def split: option.splits)
qed

lemma closest_none [simp]: "closest us i [] = None"
  by (simp add: closest_def)

lemma peaceful_offset:
  "peaceful owner r \<Longrightarrow> peaceful owner (r\<lparr> draft := (draft r)\<lparr> aiThinkingOffset := m \<rparr>, env := e \<rparr>)"
  by (simp add: peaceful_def)

lemma peaceful_state:
  assumes "peaceful owner r"
  shows "peaceful owner (r\<lparr> draft := updUnit i (\<lambda>u. u\<lparr> unitState := s \<rparr>) (draft r) \<rparr>)"
proof (cases "i < length (units (draft r))")
  case False
  then have "updUnit i (\<lambda>u. u\<lparr> unitState := s \<rparr>) (draft r) = draft r"
    by (simp add: updUnit_def list_update_beyond)
  then show ?thesis using assms by simp
next
  case True
  let ?us = "units (draft r)"
  let ?v = "(?us ! i)\<lparr> unitState := s \<rparr>"
  have v: "ownerId ?v = owner \<and> currentAttackers ?v = None \<and> priorityAttacker ?v = None"
    using assms True by (simp add: peaceful_def)
  have "\<forall>u\<in>set (?us[i := ?v]). ownerId u = owner \<and> currentAttackers u = None \<and> priorityAttacker u = None"
  proof
    fix u assume "u \<in> set (?us[i := ?v])"
    then have "u \<in> insert ?v (set ?us)" using set_update_subset_insert[of ?us i ?v] by blast
    then show "ownerId u = owner \<and> currentAttackers u = None \<and> priorityAttacker u = None"
      using v assms by (auto simp: peaceful_def)
  qed
  then show ?thesis using assms by (simp add: peaceful_def updUnit_def)
qed

lemma playerIdleBranch_peaceful:
  assumes "peaceful owner r" "i < length (units (draft r))"
  shows "snd (playerIdleBranch nowMs i r) = None \<and> peaceful owner (fst (playerIdleBranch nowMs i r))"
proof -
  let ?d = "draft r"
  have own: "\<forall>u\<in>set (units ?d). ownerId u = owner" using assms(1) by (simp add: peaceful_def)
  have u: "currentAttackers (units ?d ! i) = None" "priorityAttacker (units ?d ! i) = None"
    using assms by (simp_all add: peaceful_def)
  have rec: "recentTarget nowMs (units ?d) i = None" using own assms(2) by (rule recentTarget_none)
  have en: "findEnemiesInRange (units ?d) g i 10 = []" if "spatialGrid ?d = Some g" for g
  proof (rule findEnemiesInRange_none[OF own assms(2)])
    show "\<forall>k j. j \<in> set (cellUnits g k) \<longrightarrow> j < length (units ?d)"
      using assms(1) that by (simp add: peaceful_def)
  qed
  have tgt: "(case spatialGrid ?d of None \<Rightarrow> None
       | Some g \<Rightarrow> closest (units ?d) i (findEnemiesInRange (units ?d) g i 10)) = None"
    by (cases "spatialGrid ?d") (simp_all add: en)
  have res: "playerIdleBranch nowMs i r =
      (if unitState (units ?d ! i) = Some idle \<or> unitState (units ?d ! i) = Some pursuing_enemy
       then (r\<lparr> draft := updUnit i (\<lambda>u. u\<lparr> unitState := Some idle \<rparr>) ?d \<rparr>, None)
       else (r, None))"
    by (simp add: playerIdleBranch_def Let_def u rec tgt)
  show ?thesis
    unfolding res using assms(1) peaceful_state[OF assms(1), of i "Some idle"] by simp
qed

lemma length_peaceful_steps [simp]:
  "length (units (updUnit i f d)) = length (units d)"
  by (simp add: updUnit_def)

lemma decideUnit_peaceful:
  assumes "peaceful owner r" "i < length (units (draft r))"
  shows "snd (decideUnit dt nowMs r i) = None \<and> peaceful owner (fst (decideUnit dt nowMs r i))"
proof -
  let ?d = "draft r"
  let ?u = "units ?d ! i"
  from assms(1) obtain p where p: "List.find (\<lambda>p. player_id p = owner) (players ?d) = Some p" "\<not> isAI p"
    by (auto simp: peaceful_def)
  have o: "ownerId ?u = owner" using assms by (simp add: peaceful_def)
  have ord: "unitOrders ?d = Map.empty" using assms(1) by (simp add: peaceful_def)
  define r1 where "r1 = (if (case aiThinkingOffset ?d (unit_id ?u) of None \<Rightarrow> 0 | Some k \<Rightarrow> k) = 0
        then r\<lparr> draft := ?d\<lparr> aiThinkingOffset := (aiThinkingOffset ?d)(unit_id ?u \<mapsto> \<lfloor>fst (Math_random (env r)) * 2\<rfloor>) \<rparr>,
                env := snd (Math_random (env r)) \<rparr>
        else r)"
  define ra where "ra = (if unitState ?u = None
        then r1\<lparr> draft := updUnit i (\<lambda>u. u\<lparr> unitState := Some idle \<rparr>) (draft r1) \<rparr> else r1)"
  have p1: "peaceful owner r1" unfolding r1_def using assms(1) by (simp add: peaceful_offset)
  then have pa: "peaceful owner ra" unfolding ra_def by (simp add: peaceful_state)
  have l1: "length (units (draft r1)) = length (units ?d)" unfolding r1_def by simp
  then have la: "i < length (units (draft ra))" unfolding ra_def using assms(2) by simp
  have o1: "unitOrders (draft r1) = Map.empty" unfolding r1_def using ord by simp
  have "decideUnit dt nowMs r i = playerIdleBranch nowMs i ra"
    using p o ord by (simp add: decideUnit_def Let_def split_beta r1_def ra_def)
  then show ?thesis using playerIdleBranch_peaceful[OF pa la] by simp
qed

lemma behaveUnit_peaceful:
  assumes "peaceful owner r" "i < length (units (draft r))"
  shows "peaceful owner (behaveUnit dt nowMs r i)"
  using decideUnit_peaceful[OF assms, of dt nowMs]
  by (simp add: behaveUnit_def split_beta combatExecution_def)

lemma behaviorPass_peaceful:
  assumes "peaceful owner r" "\<forall>i\<in>set ms. i < length (units (draft r))"
  shows "peaceful owner (behaviorPass dt nowMs ms r)"
  using assms unfolding behaviorPass_def
proof (induction ms arbitrary: r)
  case Nil
  then show ?case by simp
next
  case (Cons i ms)
  have p: "peaceful owner (behaveUnit dt nowMs r i)" using Cons.prems by (intro behaveUnit_peaceful) simp_all
  have "length (units (draft (behaveUnit dt nowMs r i))) = length (units (draft r))"
    by (rule map_eq_imp_length_eq[OF core_behaveUnit])
  then have "\<forall>j\<in>set ms. j < length (units (draft (behaveUnit dt nowMs r i)))" using Cons.prems(2) by simp
  from Cons.IH[OF p this] show ?case by simp
qed

lemma attackers_checkCollision:
  "currentAttackers (fst (snd (checkCollision np cur us cr sel loc orders e))) = currentAttackers cur"
  "priorityAttacker (fst (snd (checkCollision np cur us cr sel loc orders e))) = priorityAttacker cur"
  by (simp_all add: checkCollision_def Let_def split: prod.splits)

lemma calmStore_regenUnit:
  assumes "calmStore owner d"
  shows "calmStore owner (regenUnit nowMs d i)"
proof (cases "regenEligible nowMs d i \<and> i < length (units d)")
  case True
  let ?us = "units d"
  let ?v = "healed (?us ! i)"
  have v: "ownerId ?v = owner \<and> currentAttackers ?v = None \<and> priorityAttacker ?v = None"
    using assms True by (simp add: calmStore_def healed_def)
  have "\<forall>u\<in>set (?us[i := ?v]). ownerId u = owner \<and> currentAttackers u = None \<and> priorityAttacker u = None"
  proof
    fix u assume "u \<in> set (?us[i := ?v])"
    then have "u \<in> insert ?v (set ?us)" using set_update_subset_insert[of ?us i ?v] by blast
    then show "ownerId u = owner \<and> currentAttackers u = None \<and> priorityAttacker u = None"
      using v assms by (auto simp: calmStore_def)
  qed
  then show ?thesis using assms True by (simp add: regenUnit_eq calmStore_def)
next
  case False
  then show ?thesis using assms by (auto simp: regenUnit_eq calmStore_def list_update_beyond)
qed

lemma calmStore_regenPass:
  assumes "calmStore owner d"
  shows "calmStore owner (regenPass nowMs hs d)"
proof -
  have "calmStore owner (foldl (regenUnit nowMs) d js)" for js
    using assms by (induction js arbitrary: d) (simp_all add: calmStore_regenUnit)
  then show ?thesis using assms by (simp add: regenPass_def Let_def)
qed

lemma grid_regenPass [simp]: "spatialGrid (regenPass nowMs hs d) = spatialGrid d"
proof -
  have "spatialGrid (foldl (regenUnit nowMs) d js) = spatialGrid d" for js
    by (induction js arbitrary: d) simp_all
  then show ?thesis by (simp add: regenPass_def Let_def)
qed

lemma calmStore_spawnFromQueen:
  assumes "calmStore owner d" "qi < length (units d)"
  shows "calmStore owner (fst (spawnFromQueen nowMs (d, e) qi))"
proof -
  have q: "ownerId (units d ! qi) = owner" using assms by (simp add: calmStore_def)
  have "species (spawnedUnit d e qi) = (Unit, owner, animal (units d ! qi))"
    using q by (simp add: species_spawnedUnit)
  then have o: "ownerId (spawnedUnit d e qi) = owner" by (simp add: species_def)
  have a: "currentAttackers (spawnedUnit d e qi) = None" "priorityAttacker (spawnedUnit d e qi) = None"
    by (simp_all add: spawnedUnit_def Let_def attackers_checkCollision createUnit_def split_beta)
  show ?thesis
    using assms(1) o a by (simp add: spawnFromQueen_eq calmStore_def)
qed

lemma spawnFromQueen_grows:
  "length (units d) \<le> length (units (fst (spawnFromQueen nowMs (d, e) qi)))"
  "spatialGrid (fst (spawnFromQueen nowMs (d, e) qi)) = spatialGrid d"
  by (simp_all add: spawnFromQueen_eq)

lemma calmStore_spawnPass:
  assumes "calmStore owner d" "\<forall>qi\<in>set qis. qi < length (units d)"
  shows "calmStore owner (fst (spawnPass nowMs qis (d, e)))
       \<and> length (units d) \<le> length (units (fst (spawnPass nowMs qis (d, e))))
       \<and> spatialGrid (fst (spawnPass nowMs qis (d, e))) = spatialGrid d"
  using assms
proof (induction qis arbitrary: d e)
  case Nil
  then show ?case by (simp add: spawnPass_def)
next
  case (Cons q qis)
  obtain d1 e1 where st: "spawnFromQueen nowMs (d, e) q = (d1, e1)" by (cases "spawnFromQueen nowMs (d, e) q")
  then have d1: "d1 = fst (spawnFromQueen nowMs (d, e) q)" by simp
  have c1: "calmStore owner d1" unfolding d1 using Cons.prems by (intro calmStore_spawnFromQueen) simp_all
  have l1: "length (units d) \<le> length (units d1)" and g1: "spatialGrid d1 = spatialGrid d"
    unfolding d1 by (rule spawnFromQueen_grows)+
  have b1: "\<forall>qi\<in>set qis. qi < length (units d1)" using Cons.prems(2) l1 by auto
  have e: "spawnPass nowMs (q # qis) (d, e) = spawnPass nowMs qis (d1, e1)" by (simp add: spawnPass_def st)
  from Cons.IH[OF c1 b1, of e1] l1 g1 show ?case unfolding e by simp
qed

text \<open>The units of one human player, with no order given and nobody attacked, are not
  touched by the rest of the tick once the spawning stage is over.\<close>

lemma tick_of_calm_store:
  assumes "calmStore owner s" "matchStarted s" "\<not> isPaused s"
  shows "map core (units (fst (tick dt nowMs (s, e)))) = map core (units (draft (beforeBehavior nowMs (s, e))))"
proof -
  let ?d1 = "tickPrepare s"
  let ?d2 = "regenPass nowMs (unitsNeedingHealingOf (units s)) ?d1"
  let ?r3 = "beforeBehavior nowMs (s, e)"
  let ?ms = "movableUnitsOf (units s)"
  let ?r4 = "behaviorPass dt nowMs ?ms ?r3"
  obtain g0 where g1: "spatialGrid ?d1 = Some (buildFromUnits (units s) g0)"
    by (cases "spatialGrid s") (simp_all add: tickPrepare_def)
  have "calmStore owner ?d1" using assms(1) by (simp add: calmStore_def tickPrepare_def Let_def)
  then have c2: "calmStore owner ?d2" by (rule calmStore_regenPass)
  have l2: "length (units ?d2) = length (units s)" by simp
  have b2: "\<forall>qi\<in>set (queensOf (units s)). qi < length (units ?d2)" by (simp add: queensOf_def)
  have d3: "draft ?r3 = fst (spawnPass nowMs (queensOf (units s)) (?d2, e))"
    by (simp add: beforeBehavior_def Let_def)
  from calmStore_spawnPass[OF c2 b2, of nowMs e]
  have c3: "calmStore owner (draft ?r3)" and l3: "length (units s) \<le> length (units (draft ?r3))"
    and g3: "spatialGrid (draft ?r3) = Some (buildFromUnits (units s) g0)"
    unfolding d3 using g1 by simp_all
  have cells: "j < length (units (draft ?r3))" if "j \<in> set (cellUnits (buildFromUnits (units s) g0) k)" for j k
    using that l3 by (simp add: cellUnits_buildFromUnits)
  have p3: "peaceful owner ?r3"
    using c3 cells by (auto simp: peaceful_def calmStore_def g3) (simp add: beforeBehavior_def Let_def)
  have "\<forall>i\<in>set ?ms. i < length (units (draft ?r3))" using l3 by (auto simp: movableUnitsOf_def)
  with p3 have p4: "peaceful owner ?r4" by (rule behaviorPass_peaceful)
  then have a4: "applyCombat ?r4 = ?r4" and dead: "deadUnitsToRemove (draft ?r4) = []"
    by (simp_all add: peaceful_def applyCombat_def)
  have "tick dt nowMs (s, e) = tickFinish nowMs ?r4"
    using assms(2,3) a4 by (simp add: tick_def tickThroughCombat_stages)
  then have "map core (units (fst (tick dt nowMs (s, e)))) = map core (units (removeDeadUnits (draft ?r4)))"
    by (simp add: units_tickFinish)
  also have "\<dots> = map core (units (draft ?r4))" using dead by (simp add: units_removeDeadUnits)
  also have "\<dots> = map core (units (draft ?r3))" by simp
  finally show ?thesis .
qed

lemma hive_fields [simp]:
  "kind (hiveQueen k) = Queen" "ownerId (hiveQueen k) = ''A''" "animal (hiveQueen k) = Bee"
  "unit_id (hiveQueen k) = replicate (Suc k) CHR ''q''" "hp (hiveQueen k) = maxHp (hiveQueen k)"
  "currentAttackers (hiveQueen k) = None" "priorityAttacker (hiveQueen k) = None"
  "kind (hiveWorker k) = Unit" "ownerId (hiveWorker k) = ''A''" "animal (hiveWorker k) = Bee"
  "hp (hiveWorker k) = maxHp (hiveWorker k)"
  "currentAttackers (hiveWorker k) = None" "priorityAttacker (hiveWorker k) = None"
  by (simp_all add: hiveQueen_def hiveWorker_def create_defs)

lemma hive_units: "units (hive n m) = map hiveQueen [0..<n] @ map hiveWorker [0..<m]"
  by (simp add: hive_def)

lemma hive_store [simp]:
  "matchStarted (hive n m)" "\<not> isPaused (hive n m)"
  "lastSpawnAtMsByQueenId (hive n m) = Map.empty" "config (hive n m) = defaultConfig"
  by (simp_all add: hive_def initialStore_def)

lemma hive_nth: "k < n \<Longrightarrow> units (hive n m) ! k = hiveQueen k"
  by (simp add: hive_units nth_append)

lemma hive_count: "countSpecies (units (hive n m)) ''A'' Bee = m"
  by (simp add: hive_units countSpecies_def filter_map comp_def)

lemma hive_queens_count:
  "length (filter (\<lambda>u. kind u = Queen \<and> ownerId u = ''A'' \<and> animal u = Bee) (units (hive n m))) = n"
  by (simp add: hive_units filter_map comp_def)

lemma hive_calm: "calmStore ''A'' (hive n m)"
  by (auto simp: calmStore_def hive_def initialStore_def twoPlayers_def)

lemma hive_nth_worker: "n \<le> k \<Longrightarrow> k < n + m \<Longrightarrow> units (hive n m) ! k = hiveWorker (k - n)"
  by (simp add: hive_units nth_append)

lemma hive_length: "length (units (hive n m)) = n + m"
  by (simp add: hive_units)

lemma hive_queensOf: "queensOf (units (hive n m)) = [0..<n]"
proof -
  have s: "[0..<n + m] = [0..<n] @ [n..<n + m]" by (rule upt_add_eq_append) simp
  have a: "filter (\<lambda>i. kind (units (hive n m) ! i) = Queen) [0..<n] = [0..<n]"
  proof (rule filter_True)
    show "\<forall>i\<in>set [0..<n]. kind (units (hive n m) ! i) = Queen"
      by (simp only: set_upt atLeastLessThan_iff) (simp add: hive_nth)
  qed
  have b: "filter (\<lambda>i. kind (units (hive n m) ! i) = Queen) [n..<n + m] = []"
  proof (rule filter_False)
    show "\<forall>i\<in>set [n..<n + m]. \<not> kind (units (hive n m) ! i) = Queen"
      by (simp only: set_upt atLeastLessThan_iff) (simp add: hive_nth_worker)
  qed
  show ?thesis
    unfolding queensOf_def hive_length s filter_append a b by simp
qed

lemma hive_healthy: "unitsNeedingHealingOf (units (hive n m)) = []"
proof -
  have s: "[0..<n + m] = [0..<n] @ [n..<n + m]" by (rule upt_add_eq_append) simp
  have a: "filter (\<lambda>i. hp (units (hive n m) ! i) < maxHp (units (hive n m) ! i)) [0..<n] = []"
  proof (rule filter_False)
    show "\<forall>i\<in>set [0..<n]. \<not> hp (units (hive n m) ! i) < maxHp (units (hive n m) ! i)"
      by (simp only: set_upt atLeastLessThan_iff) (simp add: hive_nth)
  qed
  have b: "filter (\<lambda>i. hp (units (hive n m) ! i) < maxHp (units (hive n m) ! i)) [n..<n + m] = []"
  proof (rule filter_False)
    show "\<forall>i\<in>set [n..<n + m]. \<not> hp (units (hive n m) ! i) < maxHp (units (hive n m) ! i)"
      by (simp only: set_upt atLeastLessThan_iff) (simp add: hive_nth_worker)
  qed
  show ?thesis
    unfolding unitsNeedingHealingOf_def hive_length s filter_append a b by simp
qed

lemma hive_before:
  "draft (beforeBehavior nowMs (hive n m, e)) = fst (spawnPass nowMs [0..<n] (tickPrepare (hive n m), e))"
  by (simp add: beforeBehavior_def Let_def hive_queensOf hive_healthy regenPass_def)

lemma replicate_inj: "replicate j c = replicate k c \<Longrightarrow> j = k"
  by (metis length_replicate)

text \<open>With \<open>n\<close> queens and \<open>m < 20\<close> units of the species, a tick at 10 s leaves \<open>m + n\<close>.\<close>

lemma hive_after_tick:
  assumes "m < 20"
  shows "countSpecies (units (fst (tick dt 10000 (hive n m, e)))) ''A'' Bee = m + n"
proof -
  let ?d = "tickPrepare (hive n m)"
  have u: "units ?d = units (hive n m)" by (rule units_tickPrepare)
  have ids: "unit_id (units (hive n m) ! k) = replicate (Suc k) CHR ''q''" if "k < n" for k
    using that by (simp add: hive_nth)
  have "inj_on (\<lambda>qi. unit_id (units (hive n m) ! qi)) (set [0..<n])"
  proof (rule inj_onI)
    fix j k assume "j \<in> set [0..<n]" "k \<in> set [0..<n]"
      and eq: "unit_id (units (hive n m) ! j) = unit_id (units (hive n m) ! k)"
    then have "j < n" "k < n" by simp_all
    with eq have "replicate (Suc j) CHR ''q'' = replicate (Suc k) CHR ''q''" by (simp only: ids)
    then have "Suc j = Suc k" by (rule replicate_inj)
    then show "j = k" by simp
  qed
  then have 1: "distinct (map (\<lambda>qi. unit_id (units ?d ! qi)) [0..<n])"
    unfolding u by (simp only: distinct_map distinct_upt simp_thms)
  have 2: "\<forall>qi\<in>set [0..<n]. qi < length (units ?d) \<and> spawnDue 10000 ?d qi
            \<and> ownerId (units ?d ! qi) = ''A'' \<and> animal (units ?d ! qi) = Bee"
  proof
    fix qi assume "qi \<in> set [0..<n]"
    then have k: "qi < n" by simp
    have "lastSpawnAtMsByQueenId ?d = Map.empty" "config ?d = defaultConfig"
      by (simp_all add: tickPrepare_def Let_def)
    then have "spawnDue 10000 ?d qi" by (simp add: spawnDue_def defaultConfig_def)
    moreover have "ownerId (units ?d ! qi) = ''A'' \<and> animal (units ?d ! qi) = Bee"
      unfolding u using k by (simp add: hive_nth)
    moreover have "qi < length (units ?d)" unfolding u hive_length using k by simp
    ultimately show "qi < length (units ?d) \<and> spawnDue 10000 ?d qi
            \<and> ownerId (units ?d ! qi) = ''A'' \<and> animal (units ?d ! qi) = Bee" by simp
  qed
  have 3: "cachedCount ?d ''A'' Bee < 20"
    using assms by (simp add: cachedCount_tickPrepare hive_count)
  have "countSpecies (units (fst (spawnPass 10000 [0..<n] (?d, e)))) ''A'' Bee
      = countSpecies (units ?d) ''A'' Bee + length [0..<n]"
    using 1 2 3 by (rule spawnPass_stale_count)
  then have b: "countSpecies (units (draft (beforeBehavior 10000 (hive n m, e)))) ''A'' Bee = m + n"
    unfolding hive_before u hive_count by simp
  have "map core (units (fst (tick dt 10000 (hive n m, e))))
      = map core (units (draft (beforeBehavior 10000 (hive n m, e))))"
    using hive_calm hive_store(1,2) by (rule tick_of_calm_store)
  then have "map species (units (fst (tick dt 10000 (hive n m, e))))
      = map species (units (draft (beforeBehavior 10000 (hive n m, e))))"
    by (rule map_species_core)
  then have "countSpecies (units (fst (tick dt 10000 (hive n m, e)))) ''A'' Bee
      = countSpecies (units (draft (beforeBehavior 10000 (hive n m, e)))) ''A'' Bee"
    by (rule countSpecies_cong)
  with b show ?thesis by simp
qed

text \<open>
  Claim C6, as amended. When a queen's turn comes in the spawning loop of a tick and
  \<open>nowMs - lastSpawn\<close> has reached the spawn interval (10 s), a unit of the archetype Unit,
  of the queen's owner and species, is appended to the unit array if and only if the count
  of that owner's units of that species \<^emph>\<open>cached when the tick began\<close> is below 20; the
  new unit is placed by the separation resolver, starting 2.5 away from the queen at the
  preset angle selected by that count modulo 8; the queen's spawn timestamp becomes
  \<open>nowMs\<close> in either case, and the cached count is not renewed by a spawn. The count cached
  by the preparation of a tick is the number of such units at that moment. Consequently an
  owner with at most one queen of a species and at most 20 units of it has at most 20
  units of it after a tick.
\<close>

theorem spawn_below_cached_cap:
  fixes d prev :: Store and e e0 :: Env and nowMs dtSec :: real and qi :: nat
    and owner :: string and a :: AnimalId
  assumes due: "nowMs - (case lastSpawnAtMsByQueenId d (unit_id (units d ! qi)) of None \<Rightarrow> 0 | Some t \<Rightarrow> t)
                  \<ge> spawnIntervalMs (config d)"
    and one: "length (filter (\<lambda>u. kind u = Queen \<and> ownerId u = owner \<and> animal u = a) (units prev)) \<le> 1"
    and cap: "countSpecies (units prev) owner a \<le> 20"
  defines "q \<equiv> units d ! qi"
  defines "d' \<equiv> fst (spawnFromQueen nowMs (d, e) qi)"
  shows "units d' = (if cachedCount d (ownerId q) (animal q) < 20 then units d @ [spawnedUnit d e qi] else units d)
       \<and> lastSpawnAtMsByQueenId d' = (lastSpawnAtMsByQueenId d)(unit_id q \<mapsto> nowMs)
       \<and> unitCountCache d' = unitCountCache d
       \<and> kind (spawnedUnit d e qi) = Unit \<and> ownerId (spawnedUnit d e qi) = ownerId q
       \<and> animal (spawnedUnit d e qi) = animal q
       \<and> position (spawnedUnit d e qi) =
           fst (checkCollision (spawnSpot d qi)
                 (fst (createUnit (ownerId q) (animal q) (spawnSpot d qi)
                        (if Some (ownerId q) = localPlayerId d then pi else 0) e))
                 (units d) 2.5 (selectedUnitIds d) (localPlayerId d) (unitOrders d)
                 (snd (createUnit (ownerId q) (animal q) (spawnSpot d qi)
                        (if Some (ownerId q) = localPlayerId d then pi else 0) e)))
       \<and> spawnSpot d qi =
           \<lparr> x = x (position q) + cos (presetAngles ! (cachedCount d (ownerId q) (animal q) mod 8)) * 2.5,
             y = 0,
             z = z (position q) + sin (presetAngles ! (cachedCount d (ownerId q) (animal q) mod 8)) * 2.5 \<rparr>
       \<and> cachedCount (tickPrepare prev) owner a = countSpecies (units prev) owner a
       \<and> countSpecies (units (fst (tick dtSec nowMs (prev, e0)))) owner a \<le> 20"
proof -
  have d: "spawnDue nowMs d qi" using due by (simp add: spawnDue_def)
  have sp: "species (spawnedUnit d e qi) = (Unit, ownerId q, animal q)"
    unfolding q_def by (rule species_spawnedUnit)
  have 1: "units d' = (if cachedCount d (ownerId q) (animal q) < 20 then units d @ [spawnedUnit d e qi] else units d)"
    and 2: "lastSpawnAtMsByQueenId d' = (lastSpawnAtMsByQueenId d)(unit_id q \<mapsto> nowMs)"
    unfolding d'_def q_def using d by (simp_all add: spawnFromQueen_eq)
  have 3: "unitCountCache d' = unitCountCache d" unfolding d'_def by (rule spawnFromQueen_cache)
  have 4: "kind (spawnedUnit d e qi) = Unit \<and> ownerId (spawnedUnit d e qi) = ownerId q
       \<and> animal (spawnedUnit d e qi) = animal q"
    using sp by (simp add: species_def)
  have 5: "spawnSpot d qi =
           \<lparr> x = x (position q) + cos (presetAngles ! (cachedCount d (ownerId q) (animal q) mod 8)) * 2.5,
             y = 0,
             z = z (position q) + sin (presetAngles ! (cachedCount d (ownerId q) (animal q) mod 8)) * 2.5 \<rparr>"
    unfolding q_def by (simp add: spawnSpot_def Let_def)
  show ?thesis
    using 1 2 3 4 5 position_spawnedUnit[of d e qi] cachedCount_tickPrepare[of prev owner a]
      tick_keeps_cap[OF one cap, of dtSec nowMs e0]
    unfolding q_def by (simp only: simp_thms)
qed

theorem spawn_below_cached_cap_witness:
  "length (filter (\<lambda>u. kind u = Queen \<and> ownerId u = ''A'' \<and> animal u = Bee) (units (hive 1 19))) = 1
   \<and> countSpecies (units (hive 1 19)) ''A'' Bee = 19
   \<and> length (units (hive 1 19)) = 20
   \<and> length (units (fst (spawnFromQueen 10000 (tickPrepare (hive 1 19), envCounting) 0))) = 21
   \<and> lastSpawnAtMsByQueenId (fst (spawnFromQueen 10000 (tickPrepare (hive 1 19), envCounting) 0)) ''q'' = Some 10000
   \<and> countSpecies (units (fst (tick (1 / 60) 10000 (hive 1 19, envCounting)))) ''A'' Bee = 20
   \<and> countSpecies (units (hive 1 20)) ''A'' Bee = 20
   \<and> units (fst (spawnFromQueen 10000 (tickPrepare (hive 1 20), envCounting) 0)) = units (hive 1 20)
   \<and> lastSpawnAtMsByQueenId (fst (spawnFromQueen 10000 (tickPrepare (hive 1 20), envCounting) 0)) ''q'' = Some 10000
   \<and> countSpecies (units (fst (tick (1 / 60) 10000 (hive 1 20, envCounting)))) ''A'' Bee \<le> 20"
proof -
  have f: "lastSpawnAtMsByQueenId (tickPrepare (hive 1 m)) = Map.empty" "config (tickPrepare (hive 1 m)) = defaultConfig"
    "units (tickPrepare (hive 1 m)) ! 0 = hiveQueen 0" for m
    by (simp_all add: tickPrepare_def Let_def hive_nth)
  have due: "10000 - (case lastSpawnAtMsByQueenId (tickPrepare (hive 1 m))
                          (unit_id (units (tickPrepare (hive 1 m)) ! 0)) of None \<Rightarrow> 0 | Some t \<Rightarrow> t)
                  \<ge> spawnIntervalMs (config (tickPrepare (hive 1 m)))" for m
    unfolding f by (simp add: defaultConfig_def)
  have one: "length (filter (\<lambda>u. kind u = Queen \<and> ownerId u = ''A'' \<and> animal u = Bee) (units (hive 1 m))) \<le> 1" for m
    by (simp add: hive_queens_count)
  have cap: "countSpecies (units (hive 1 19)) ''A'' Bee \<le> 20" "countSpecies (units (hive 1 20)) ''A'' Bee \<le> 20"
    by (simp_all add: hive_count)
  have cc: "cachedCount (tickPrepare (hive 1 m)) (ownerId (hiveQueen 0)) (animal (hiveQueen 0)) = m" for m
    by (simp add: cachedCount_tickPrepare hive_count)
  note a = spawn_below_cached_cap[where d = "tickPrepare (hive 1 19)" and qi = 0 and prev = "hive 1 19"
      and owner = "''A''" and a = Bee and nowMs = 10000 and e = envCounting and e0 = envCounting
      and dtSec = "1 / 60", OF due one cap(1)]
  note b = spawn_below_cached_cap[where d = "tickPrepare (hive 1 20)" and qi = 0 and prev = "hive 1 20"
      and owner = "''A''" and a = Bee and nowMs = 10000 and e = envCounting and e0 = envCounting
      and dtSec = "1 / 60", OF due one cap(2)]
  have t: "countSpecies (units (fst (tick (1 / 60) 10000 (hive 1 19, envCounting)))) ''A'' Bee = 20"
    using hive_after_tick[of 19 "1 / 60" 1 envCounting] by simp
  show ?thesis
    using a b t unfolding f cc
    by (simp add: hive_count hive_queens_count hive_length)
qed

text \<open>
  The claim as stated fails: a player with three Bee queens and 18 Bee units has 21 Bee
  units after the tick on which the three queens are due. All three read the count of 18
  that was cached when the tick began.
\<close>

theorem spawn_cap_counterexample:
  "length (filter (\<lambda>u. kind u = Queen \<and> ownerId u = ''A'' \<and> animal u = Bee) (units (hive 3 18))) = 3
   \<and> countSpecies (units (hive 3 18)) ''A'' Bee = 18
   \<and> countSpecies (units (fst (tick (1 / 60) 10000 (hive 3 18, envCounting)))) ''A'' Bee = 21"
  using hive_after_tick[of 18 "1 / 60" 3 envCounting] by (simp add: hive_count hive_queens_count)

end
